theory Spec2Isabelle
  imports Complex_Main "HOL-Library.AList" "HOL-Library.Sublist"
begin

section \<open>Values of the feed engine\<close>

text \<open>
  A JavaScript object used as a dictionary is an association list with unique keys in
  insertion order: \<open>{...o, [k]: v}\<close> and \<open>o[k] = v\<close> are \<open>AList.update k v o\<close> (replace in
  place, or append), \<open>delete o[k]\<close> is \<open>AList.delete k o\<close>, \<open>o[k]\<close> is \<open>map_of o k\<close>
  (\<open>None\<close> for \<open>undefined\<close>). Counts and millisecond clocks are integers; scores, which
  the code computes in tenths and fractions of an hour, are exact rationals.
\<close>

datatype 'a jsval = Absent | Null | Val 'a

datatype js_time = Timestamp int | Number int | SecondsObj int | NotATime

record comment =
  c_id :: string
  c_user_id :: string
  c_text :: string
  c_author_name :: string
  c_author_handle :: string
  c_author_avatar_url :: string
  c_created_at :: int

record post =
  post_id :: string
  user_id :: "string jsval"
  created_at :: "js_time jsval"
  caption :: string
  image_url :: string
  thumbnail_url :: string
  public_id :: string
  tags :: "string list"
  engagement_count :: int
  reactions_count :: "(string \<times> int) list"
  reacted_by :: "(string \<times> string) list"
  comments_count :: int
  comments :: "comment list"
  steeze_score :: rat
  media_type :: string
  moderated_status :: string
  delivery_status :: "string option"
  fromMine :: bool
  fromFollowing :: bool
  fromCampus :: bool
  fromGlobal :: bool
  feedScore :: "rat option"

text \<open>The stored document, \<open>docSnap.data()\<close>: every field may be missing.\<close>

record doc_data =
  d_user_id :: "string jsval"
  d_created_at :: "js_time jsval"
  d_caption :: string
  d_image_url :: string
  d_public_id :: string
  d_reactions_count :: "(string \<times> int) list option"
  d_reacted_by :: "(string \<times> string) list option"
  d_likes_count :: "int option"
  d_liked_by :: "string list option"
  d_engagement_count :: "int option"
  d_comments_count :: "int option"
  d_comments :: "comment list option"
  d_steeze_score :: "rat option"
  d_media_type :: "string option"
  d_thumbnail_url :: "string option"
  d_tags :: "string list option"
  d_moderated_status :: "string option"

definition feedWindowMs :: int where
  "feedWindowMs = 24 * 60 * 60 * 1000"

definition feedPageSize :: nat where
  "feedPageSize = 12"

definition reactionKeys :: "string list" where
  "reactionKeys = [''annoyed'', ''love'', ''surprised'', ''thumbs_up'', ''laugh'']"

text \<open>\<open>x || d\<close> on numbers and strings: zero and the empty string are falsy.\<close>

definition int_or :: "int option \<Rightarrow> int \<Rightarrow> int" where
  "int_or x d = (case x of None \<Rightarrow> d | Some n \<Rightarrow> if n = 0 then d else n)"

definition rat_or :: "rat option \<Rightarrow> rat \<Rightarrow> rat" where
  "rat_or x d = (case x of None \<Rightarrow> d | Some n \<Rightarrow> if n = 0 then d else n)"

definition str_or :: "string option \<Rightarrow> string \<Rightarrow> string" where
  "str_or x d = (case x of None \<Rightarrow> d | Some s \<Rightarrow> if s = [] then d else s)"

text \<open>\<open>counts[key]\<close> read as a number: a missing key counts as zero.\<close>

definition count_of :: "(string \<times> int) list \<Rightarrow> string \<Rightarrow> int" where
  "count_of counts key = (case map_of counts key of None \<Rightarrow> 0 | Some n \<Rightarrow> n)"

section \<open>Normalizer\<close>

definition createEmptyReactionCounts :: "(string \<times> int) list" where
  "createEmptyReactionCounts = foldl (\<lambda>counts key. AList.update key 0 counts) [] reactionKeys"

definition normalizeReactionCounts :: "(string \<times> int) list option \<Rightarrow> (string \<times> int) list" where
  "normalizeReactionCounts v =
     (let fallback = createEmptyReactionCounts in
      case v of
        None \<Rightarrow> fallback
      | Some obj \<Rightarrow> foldl (\<lambda>counts key. AList.update key (count_of obj key) counts) fallback reactionKeys)"

definition normalizeReactedBy :: "(string \<times> string) list option \<Rightarrow> (string \<times> string) list" where
  "normalizeReactedBy v =
     (case v of
        None \<Rightarrow> []
      | Some obj \<Rightarrow>
          foldl (\<lambda>next (userId, reactionKey).
                   if userId = [] \<or> reactionKey \<notin> set reactionKeys then next
                   else AList.update userId reactionKey next) [] obj)"

definition computeReactionTotal :: "(string \<times> int) list \<Rightarrow> int" where
  "computeReactionTotal reactionsCount =
     (let counts = normalizeReactionCounts (Some reactionsCount) in
      foldl (\<lambda>sum key. sum + count_of counts key) 0 reactionKeys)"

text \<open>
  \<open>Math.min(99, Number((engagements * 0.1).toFixed(1)))\<close>: for an integer engagement
  count the rounding to one decimal gives exactly a tenth of it.
\<close>

definition computeSteezeScore :: "int \<Rightarrow> rat" where
  "computeSteezeScore engagementCount =
     (let engagements = max 0 engagementCount in min 99 (of_int engagements / 10))"

definition toMillis :: "js_time jsval \<Rightarrow> int" where
  "toMillis v =
     (case v of
        Val (Timestamp ms) \<Rightarrow> ms
      | Val (Number n) \<Rightarrow> n
      | Val (SecondsObj s) \<Rightarrow> s * 1000
      | _ \<Rightarrow> 0)"

text \<open>
  \<open>normalizePost\<close>. A stored document carries no delivery state, provenance flag or
  feed score, so the spread of \<open>data\<close> leaves them absent.
\<close>

definition normalizePost :: "string \<Rightarrow> doc_data \<Rightarrow> post" where
  "normalizePost docId d =
     (let reactionsCount0 = normalizeReactionCounts (d_reactions_count d);
          reactedBy0 = normalizeReactedBy (d_reacted_by d);
          fallbackLikes = int_or (d_likes_count d) 0;
          fallbackLikedBy = (case d_liked_by d of None \<Rightarrow> [] | Some l \<Rightarrow> l);
          fallbackReactionCount = max fallbackLikes (int (length fallbackLikedBy));
          reactionsCount =
            (if d_reactions_count d = None \<and> fallbackReactionCount > 0
             then AList.update ''thumbs_up'' fallbackReactionCount reactionsCount0
             else reactionsCount0);
          reactedBy =
            (if d_reacted_by d = None \<and> fallbackLikedBy \<noteq> []
             then foldl (\<lambda>rb userId.
                           if userId \<noteq> [] \<and> map_of rb userId = None
                           then AList.update userId ''thumbs_up'' rb else rb)
                        reactedBy0 fallbackLikedBy
             else reactedBy0);
          engagementCount = int_or (d_engagement_count d) (computeReactionTotal reactionsCount)
      in \<lparr> post_id = docId,
           user_id = d_user_id d,
           created_at = d_created_at d,
           caption = d_caption d,
           image_url = d_image_url d,
           thumbnail_url = str_or (d_thumbnail_url d) [],
           public_id = d_public_id d,
           tags = (case d_tags d of None \<Rightarrow> [] | Some t \<Rightarrow> t),
           engagement_count = engagementCount,
           reactions_count = reactionsCount,
           reacted_by = reactedBy,
           comments_count = int_or (d_comments_count d) 0,
           comments = (case d_comments d of None \<Rightarrow> [] | Some c \<Rightarrow> c),
           steeze_score = rat_or (d_steeze_score d) 0,
           media_type = str_or (d_media_type d) ''image'',
           moderated_status = str_or (d_moderated_status d) ''active'',
           delivery_status = None,
           fromMine = False, fromFollowing = False, fromCampus = False, fromGlobal = False,
           feedScore = None \<rparr>)"

section \<open>Application state\<close>

text \<open>
  The React state the modelled handlers read and write, together with the authoritative
  store (the \<open>picture_posts\<close> collection). \<open>remoteEnabled\<close> is
  \<open>isFirebaseConfigured && !previewUser\<close>; an empty \<open>currentUserId\<close> is the falsy one;
  \<open>privateAccount\<close> is the setting, the four fields after it are the profile's.
  Messages, toasts and console output are not part of the state. A handler runs from
  its guards to its \<open>finally\<close> block on one state: what a catch block patches is the
  feed its own optimistic step left, with no snapshot or other handler in between.
\<close>

record app =
  posts :: "post list"
  pendingReactions :: "string set"
  pendingComments :: "string set"
  currentUserId :: string
  suspended :: bool
  remoteEnabled :: bool
  isAdmin :: bool
  isPublishing :: bool
  selectedHashtag :: string
  feedVisibleCount :: nat
  feedFetchLimit :: nat
  reflectionCommentDrafts :: "string \<rightharpoonup> string"
  privateAccount :: bool
  privateAlias :: string
  displayName :: string
  username :: string
  avatarUrl :: string
  store :: "string \<rightharpoonup> doc_data"

text \<open>How the awaited remote step of a mutation ends.\<close>

datatype remote_outcome = Remote_ok | Txn_throws | Activity_throws

definition assertCanInteract :: "app \<Rightarrow> bool" where
  "assertCanInteract st = (\<not> suspended st)"

section \<open>Mutation coordinator: reactions\<close>

text \<open>The four fields a reaction writes; also the snapshot restored on failure.\<close>

record reaction_fields =
  rf_reacted_by :: "(string \<times> string) list"
  rf_reactions_count :: "(string \<times> int) list"
  rf_engagement_count :: int
  rf_steeze_score :: rat

definition write_reaction :: "reaction_fields \<Rightarrow> post \<Rightarrow> post" where
  "write_reaction f p =
     p\<lparr> reacted_by := rf_reacted_by f,
        reactions_count := rf_reactions_count f,
        engagement_count := rf_engagement_count f,
        steeze_score := rf_steeze_score f \<rparr>"

text \<open>The optimistic step of \<open>reactToPost\<close>, computed from the target as last known.\<close>

definition reactionNext :: "string \<Rightarrow> string \<Rightarrow> post \<Rightarrow> reaction_fields" where
  "reactionNext uid reactionKey target =
     (let currentReactedBy = normalizeReactedBy (Some (reacted_by target));
          currentReactionsCount = normalizeReactionCounts (Some (reactions_count target));
          currentReaction = map_of currentReactedBy uid;
          isRemoving = (currentReaction = Some reactionKey);
          nextReaction = (if isRemoving then None else Some reactionKey);
          nextReactedBy =
            (if isRemoving then AList.delete uid currentReactedBy
             else AList.update uid reactionKey currentReactedBy);
          decremented =
            (case currentReaction of
               None \<Rightarrow> currentReactionsCount
             | Some c \<Rightarrow>
                 if count_of currentReactionsCount c > 0
                 then AList.update c (count_of currentReactionsCount c - 1) currentReactionsCount
                 else currentReactionsCount);
          nextReactionsCount =
            (case nextReaction of
               None \<Rightarrow> decremented
             | Some n \<Rightarrow> AList.update n (count_of decremented n + 1) decremented);
          nextEngagement = computeReactionTotal nextReactionsCount;
          nextSteeze = computeSteezeScore nextEngagement
      in \<lparr> rf_reacted_by = nextReactedBy,
           rf_reactions_count = nextReactionsCount,
           rf_engagement_count = nextEngagement,
           rf_steeze_score = nextSteeze \<rparr>)"

text \<open>The values the catch block writes back.\<close>

definition reactionRollback :: "post \<Rightarrow> reaction_fields" where
  "reactionRollback target =
     (let currentReactedBy = normalizeReactedBy (Some (reacted_by target));
          currentReactionsCount = normalizeReactionCounts (Some (reactions_count target))
      in \<lparr> rf_reacted_by = currentReactedBy,
           rf_reactions_count = currentReactionsCount,
           rf_engagement_count =
             int_or (Some (engagement_count target)) (computeReactionTotal currentReactionsCount),
           rf_steeze_score =
             rat_or (Some (steeze_score target))
               (computeSteezeScore (computeReactionTotal currentReactionsCount)) \<rparr>)"

text \<open>The body of the transaction, on the authoritative document.\<close>

definition reactionTransaction :: "string \<Rightarrow> string \<Rightarrow> doc_data \<Rightarrow> doc_data" where
  "reactionTransaction uid reactionKey d =
     (let dbReactedBy = normalizeReactedBy (d_reacted_by d);
          dbReactionsCount = normalizeReactionCounts (d_reactions_count d);
          dbCurrentReaction = map_of dbReactedBy uid;
          dbRemoving = (dbCurrentReaction = Some reactionKey);
          dbNextReaction = (if dbRemoving then None else Some reactionKey);
          decremented =
            (case dbCurrentReaction of
               None \<Rightarrow> dbReactionsCount
             | Some c \<Rightarrow>
                 if count_of dbReactionsCount c > 0
                 then AList.update c (count_of dbReactionsCount c - 1) dbReactionsCount
                 else dbReactionsCount);
          written =
            (case dbNextReaction of
               Some n \<Rightarrow>
                 (AList.update n (count_of decremented n + 1) decremented,
                  AList.update uid n dbReactedBy)
             | None \<Rightarrow> (decremented, AList.delete uid dbReactedBy));
          updatedEngagement = computeReactionTotal (fst written);
          updatedSteeze = computeSteezeScore updatedEngagement
      in d\<lparr> d_engagement_count := Some updatedEngagement,
            d_reactions_count := Some (fst written),
            d_reacted_by := Some (snd written),
            d_steeze_score := Some updatedSteeze \<rparr>)"

definition runReactionTransaction ::
  "string \<Rightarrow> string \<Rightarrow> string \<Rightarrow> (string \<rightharpoonup> doc_data) \<Rightarrow> (string \<rightharpoonup> doc_data)" where
  "runReactionTransaction uid postId reactionKey db =
     (case db postId of
        None \<Rightarrow> db
      | Some d \<Rightarrow> db(postId \<mapsto> reactionTransaction uid reactionKey d))"

definition patchPost :: "string \<Rightarrow> (post \<Rightarrow> post) \<Rightarrow> post list \<Rightarrow> post list" where
  "patchPost postId f prev = map (\<lambda>p. if post_id p = postId then f p else p) prev"

text \<open>
  \<open>reactToPost\<close> from the guards to the \<open>finally\<close> block. The remote step either
  commits the transaction (and then logs the activity, unless the reaction was removed)
  or throws; both throws reach the catch block, which writes the snapshot back.
\<close>

definition reactToPost :: "remote_outcome \<Rightarrow> string \<Rightarrow> string \<Rightarrow> app \<Rightarrow> app" where
  "reactToPost outcome postId reactionKey st =
     (if reactionKey \<notin> set reactionKeys then st
      else case find (\<lambda>p. post_id p = postId) (posts st) of
        None \<Rightarrow> st
      | Some target \<Rightarrow>
          if currentUserId st = [] then st
          else if \<not> assertCanInteract st then st
          else if postId \<in> pendingReactions st then st
          else
            let uid = currentUserId st;
                isRemoving =
                  (map_of (normalizeReactedBy (Some (reacted_by target))) uid = Some reactionKey);
                st1 = st\<lparr> pendingReactions := insert postId (pendingReactions st) \<rparr>;
                st2 = st1\<lparr> posts :=
                        patchPost postId (write_reaction (reactionNext uid reactionKey target))
                          (posts st1) \<rparr>;
                committed = st2\<lparr> store := runReactionTransaction uid postId reactionKey (store st2) \<rparr>;
                failed = (\<lambda>s. s\<lparr> posts :=
                            patchPost postId (write_reaction (reactionRollback target)) (posts s) \<rparr>);
                st3 =
                  (if remoteEnabled st then
                     (case outcome of
                        Remote_ok \<Rightarrow> committed
                      | Txn_throws \<Rightarrow> failed st2
                      | Activity_throws \<Rightarrow> if isRemoving then committed else failed committed)
                   else st2)
            in st3\<lparr> pendingReactions := pendingReactions st3 - {postId} \<rparr>)"

section \<open>Strings\<close>

text \<open>
  \<open>toLowerCase\<close> and \<open>trim\<close> on the ASCII range, \<open>String(n)\<close> for an integer, and
  \<open>hashText\<close>, whose \<open>>>> 0\<close> keeps the low 32 bits.
\<close>

definition lower_char :: "char \<Rightarrow> char" where
  "lower_char c =
     (let n = (of_char c :: nat) in if 65 \<le> n \<and> n \<le> 90 then char_of (n + 32) else c)"

definition toLowerCase :: "string \<Rightarrow> string" where
  "toLowerCase s = map lower_char s"

definition is_space :: "char \<Rightarrow> bool" where
  "is_space c = (let n = (of_char c :: nat) in n = 32 \<or> (9 \<le> n \<and> n \<le> 13))"

definition trim :: "string \<Rightarrow> string" where
  "trim s = rev (dropWhile is_space (rev (dropWhile is_space s)))"

fun string_of_nat :: "nat \<Rightarrow> string" where
  "string_of_nat n =
     (if n < 10 then [char_of (48 + n)]
      else string_of_nat (n div 10) @ [char_of (48 + n mod 10)])"

definition string_of_int :: "int \<Rightarrow> string" where
  "string_of_int i =
     (if i < 0 then CHR ''-'' # string_of_nat (nat (- i)) else string_of_nat (nat i))"

definition hashText :: "string \<Rightarrow> nat" where
  "hashText v = foldl (\<lambda>hash c. (hash * 31 + of_char c) mod 2 ^ 32) 0 v"

definition generatePrivateAlias :: "string \<Rightarrow> string" where
  "generatePrivateAlias userId =
     (let first = [''Jelly'', ''Velvet'', ''Cocoa'', ''Mellow'', ''Sunny'', ''Silver'', ''Mint'',
                   ''Neon'', ''Echo'', ''Lucky''];
          second = [''Bean'', ''Comet'', ''Whisper'', ''Sparrow'', ''Pixel'', ''River'', ''Mocha'',
                    ''Nova'', ''Cloud'', ''Rune''];
          hash = hashText (if userId = [] then ''mirror'' else userId);
          a = first ! (hash mod length first);
          b = second ! ((hash div length first) mod length second);
          shown = (if userId = [] then ''0000'' else userId);
          suffix = toLowerCase (drop (length shown - 4) shown)
      in trim (a @ '' '' @ b @ '' '' @ suffix))"

section \<open>Ranker\<close>

text \<open>
  The latest snapshot of each subscription, every row a \<open>normalizePost\<close> result;
  \<open>following\<close> lists the chunks present, in index order (\<open>Object.values\<close>).
\<close>

record bucketState =
  campus :: "post list"
  mine :: "post list"
  following :: "post list list"
  global :: "post list"

text \<open>
  \<open>{...previous, ...row}\<close>: the row's value wins wherever the row has the key. The
  normalizer sets every key but \<open>user_id\<close>, \<open>created_at\<close>, the delivery state and the
  score, which come from the document or are absent; for those an absent key leaves the
  previous entry's value.
\<close>

definition spread_jsval :: "'a jsval \<Rightarrow> 'a jsval \<Rightarrow> 'a jsval" where
  "spread_jsval previous row = (case row of Absent \<Rightarrow> previous | _ \<Rightarrow> row)"

definition spread_option :: "'a option \<Rightarrow> 'a option \<Rightarrow> 'a option" where
  "spread_option previous row = (case row of None \<Rightarrow> previous | Some v \<Rightarrow> Some v)"

definition addToMerged :: "(string \<times> post) list \<Rightarrow> post \<Rightarrow> string \<Rightarrow> (string \<times> post) list" where
  "addToMerged merged row source =
     (let previous = map_of merged (post_id row);
          next0 =
            (case previous of
               None \<Rightarrow>
                 row\<lparr> fromMine := False, fromFollowing := False,
                      fromCampus := False, fromGlobal := False \<rparr>
             | Some prev \<Rightarrow>
                 row\<lparr> user_id := spread_jsval (user_id prev) (user_id row),
                      created_at := spread_jsval (created_at prev) (created_at row),
                      delivery_status := spread_option (delivery_status prev) (delivery_status row),
                      feedScore := spread_option (feedScore prev) (feedScore row),
                      fromMine := fromMine prev, fromFollowing := fromFollowing prev,
                      fromCampus := fromCampus prev, fromGlobal := fromGlobal prev \<rparr>);
          next1 = (if source = ''mine'' then next0\<lparr> fromMine := True \<rparr> else next0);
          next2 = (if source = ''following'' then next1\<lparr> fromFollowing := True \<rparr> else next1);
          next3 = (if source = ''campus'' then next2\<lparr> fromCampus := True \<rparr> else next2);
          next4 = (if source = ''global'' then next3\<lparr> fromGlobal := True \<rparr> else next3)
      in AList.update (post_id row) next4 merged)"

definition mergeBuckets :: "bucketState \<Rightarrow> (string \<times> post) list" where
  "mergeBuckets b =
     (let m1 = foldl (\<lambda>m row. addToMerged m row ''mine'') [] (mine b);
          m2 = foldl (\<lambda>m row. addToMerged m row ''campus'') m1 (campus b);
          m3 = foldl (\<lambda>m rows. foldl (\<lambda>m row. addToMerged m row ''following'') m rows) m2
                 (following b)
      in foldl (\<lambda>m row. addToMerged m row ''global'') m3 (global b))"

text \<open>\<open>map.set(key, (map.get(key) || 0) + n)\<close> and \<open>map.get(key) || 0\<close>.\<close>

definition weight_of :: "('k \<times> int) list \<Rightarrow> 'k \<Rightarrow> int" where
  "weight_of w key = (case map_of w key of None \<Rightarrow> 0 | Some n \<Rightarrow> n)"

definition bump :: "'k \<Rightarrow> int \<Rightarrow> ('k \<times> int) list \<Rightarrow> ('k \<times> int) list" where
  "bump key n w = AList.update key (weight_of w key + n) w"

definition interactionWeights ::
  "string \<Rightarrow> post list \<Rightarrow> (string \<times> int) list \<times> (string jsval \<times> int) list" where
  "interactionWeights uid ps =
     foldl (\<lambda>(tagWeights, authorWeights) p.
              if str_or (map_of (reacted_by p) uid) [] = [] then (tagWeights, authorWeights)
              else (foldl (\<lambda>w tag. bump (toLowerCase tag) 2 w) tagWeights (tags p),
                    bump (user_id p) 5 authorWeights))
           ([], []) ps"

definition inWindow :: "int \<Rightarrow> post \<Rightarrow> bool" where
  "inWindow nowMs p =
     (let createdMs = toMillis (created_at p) in createdMs > 0 \<and> nowMs - createdMs \<le> feedWindowMs)"

definition recencyScore :: "int \<Rightarrow> post \<Rightarrow> rat" where
  "recencyScore nowMs p =
     (let ageHours = max 0 (of_int (nowMs - toMillis (created_at p)) / 3600000)
      in max 0 (24 - ageHours) * 4)"

definition engagementScore :: "post \<Rightarrow> rat" where
  "engagementScore p = of_int (engagement_count p) * (22 / 10)"

definition styleScore :: "string list \<Rightarrow> post \<Rightarrow> int" where
  "styleScore styleTags p =
     (let styleSet = set (map toLowerCase styleTags)
      in foldl (\<lambda>count tag. count + (if toLowerCase tag \<in> styleSet then 2 else 0)) 0 (tags p))"

definition interactionScore :: "(string \<times> int) list \<Rightarrow> post \<Rightarrow> int" where
  "interactionScore tagWeights p =
     foldl (\<lambda>total tag. total + weight_of tagWeights (toLowerCase tag)) 0 (tags p)"

definition authorAffinity :: "(string jsval \<times> int) list \<Rightarrow> post \<Rightarrow> int" where
  "authorAffinity authorWeights p = weight_of authorWeights (user_id p)"

definition sourceBoost :: "post \<Rightarrow> rat" where
  "sourceBoost p =
     (if fromMine p then 120 else 0) + (if fromFollowing p then 45 else 0)
     + (if fromCampus p then 12 else 0) + (if fromGlobal p then 6 else 0)"

definition scorePost ::
  "int \<Rightarrow> string list \<Rightarrow> (string \<times> int) list \<Rightarrow> (string jsval \<times> int) list \<Rightarrow> post \<Rightarrow> post" where
  "scorePost nowMs styleTags tagWeights authorWeights p =
     p\<lparr> feedScore :=
          Some (sourceBoost p + recencyScore nowMs p + engagementScore p
                + of_int (styleScore styleTags p) + of_int (interactionScore tagWeights p)
                + of_int (authorAffinity authorWeights p)) \<rparr>"

definition score_of :: "post \<Rightarrow> rat" where
  "score_of p = (case feedScore p of None \<Rightarrow> 0 | Some s \<Rightarrow> s)"

text \<open>
  \<open>Array.prototype.sort\<close> with the comparator \<open>(a, b) => b._feedScore - a._feedScore\<close>
  is a stable sort, descending by score: an insertion sort on the negated score.
\<close>

definition sortByFeedScore :: "post list \<Rightarrow> post list" where
  "sortByFeedScore ps = sort_key (\<lambda>p. - score_of p) ps"

definition rankPosts :: "int \<Rightarrow> string list \<Rightarrow> string \<Rightarrow> bucketState \<Rightarrow> post list" where
  "rankPosts nowMs styleTags uid b =
     (let merged = map snd (mergeBuckets b);
          weights = interactionWeights uid merged
      in sortByFeedScore
           (map (scorePost nowMs styleTags (fst weights) (snd weights))
                (filter (inWindow nowMs) merged)))"

section \<open>Pager and selectors\<close>

definition visiblePosts :: "app \<Rightarrow> post list" where
  "visiblePosts st =
     filter (\<lambda>p. isAdmin st \<or> str_or (Some (moderated_status p)) ''active'' \<noteq> ''hidden'') (posts st)"

definition homePosts :: "app \<Rightarrow> post list" where
  "homePosts st = filter (\<lambda>p. str_or (Some (media_type p)) ''text'' = ''text'') (visiblePosts st)"

definition moodFilteredHomePosts :: "app \<Rightarrow> post list" where
  "moodFilteredHomePosts st =
     (if selectedHashtag st = [] then homePosts st
      else filter (\<lambda>p. selectedHashtag st \<in> set (map toLowerCase (tags p))) (homePosts st))"

definition visibleFeedPosts :: "app \<Rightarrow> post list" where
  "visibleFeedPosts st = take (feedVisibleCount st) (moodFilteredHomePosts st)"

definition loadMoreFeed :: "app \<Rightarrow> app" where
  "loadMoreFeed st =
     (let prev = feedVisibleCount st;
          len = length (moodFilteredHomePosts st);
          next = min len (prev + feedPageSize)
      in st\<lparr> feedVisibleCount := next,
             feedFetchLimit :=
               (if int next \<ge> int len - 2 then min 1200 (feedFetchLimit st + 120)
                else feedFetchLimit st) \<rparr>)"

section \<open>Mutation coordinator: comments\<close>

definition buildComment :: "int \<Rightarrow> string \<Rightarrow> app \<Rightarrow> comment" where
  "buildComment nowMs text st =
     (let uid = currentUserId st;
          commentAuthorName =
            (if privateAccount st
             then (if privateAlias st \<noteq> [] then privateAlias st else generatePrivateAlias uid)
             else (if displayName st \<noteq> [] then displayName st
                   else if username st \<noteq> [] then username st else ''Mirror Student''));
          commentAuthorHandle =
            (if privateAccount st then ''@hidden''
             else if username st \<noteq> [] then username st else ''@mirrorstudent'');
          commentAvatar = (if privateAccount st then [] else avatarUrl st)
      in \<lparr> c_id = uid @ ''-'' @ string_of_int nowMs,
           c_user_id = uid,
           c_text = take 220 text,
           c_author_name = commentAuthorName,
           c_author_handle = commentAuthorHandle,
           c_author_avatar_url = commentAvatar,
           c_created_at = nowMs \<rparr>)"

definition appendComment :: "comment \<Rightarrow> post \<Rightarrow> post" where
  "appendComment nextComment p =
     p\<lparr> comments := comments p @ [nextComment],
        comments_count := int_or (Some (comments_count p)) 0 + 1 \<rparr>"

text \<open>The body of the comment transaction; the stored list keeps its last 150 entries.\<close>

definition runCommentTransaction ::
  "comment \<Rightarrow> string \<Rightarrow> (string \<rightharpoonup> doc_data) \<Rightarrow> (string \<rightharpoonup> doc_data)" where
  "runCommentTransaction nextComment postId db =
     (case db postId of
        None \<Rightarrow> db
      | Some d \<Rightarrow>
          if str_or (d_media_type d) ''text'' = ''text'' then db
          else
            let stored = (case d_comments d of None \<Rightarrow> [] | Some c \<Rightarrow> c);
                appended = stored @ [nextComment];
                updatedComments = drop (length appended - 150) appended
            in db(postId \<mapsto> d\<lparr> d_comments := Some updatedComments,
                                d_comments_count := Some (int (length updatedComments)) \<rparr>))"

text \<open>
  \<open>addReflectionComment\<close>. The catch block reports the error and touches no post; a
  comment transaction has no activity log after it, so its only throw is the
  transaction's.
\<close>

definition addReflectionComment :: "remote_outcome \<Rightarrow> int \<Rightarrow> string \<Rightarrow> app \<Rightarrow> app" where
  "addReflectionComment outcome nowMs postId st =
     (case find (\<lambda>p. post_id p = postId) (posts st) of
        None \<Rightarrow> st
      | Some target \<Rightarrow>
          if media_type target = ''text'' then st
          else if \<not> assertCanInteract st then st
          else if postId \<in> pendingComments st then st
          else
            let text = trim (str_or (reflectionCommentDrafts st postId) [])
            in if text = [] \<or> currentUserId st = [] then st
               else
                 let nextComment = buildComment nowMs text st;
                     st1 = st\<lparr> posts := patchPost postId (appendComment nextComment) (posts st) \<rparr>;
                     st2 = st1\<lparr> reflectionCommentDrafts := (reflectionCommentDrafts st1)(postId \<mapsto> []) \<rparr>;
                     st3 = st2\<lparr> pendingComments := insert postId (pendingComments st2) \<rparr>;
                     st4 =
                       (if remoteEnabled st then
                          (case outcome of
                             Txn_throws \<Rightarrow> st3
                           | _ \<Rightarrow> st3\<lparr> store := runCommentTransaction nextComment postId (store st3) \<rparr>)
                        else st3)
                 in st4\<lparr> pendingComments := pendingComments st4 - {postId} \<rparr>)"

section \<open>Delivery tracker\<close>

text \<open>
  The composer's draft: caption, mode (\<open>''reflection''\<close> needs an image), the selected
  file (only its presence matters to \<open>createPost\<close>) and the local preview URL.
\<close>

record draft =
  draftCaption :: string
  postMode :: string
  selectedFile :: "string option"
  previewUrl :: string

text \<open>
  How the awaited calls end: the upload throws or returns URL, public id and resource
  type; the publish write throws, or the document is added (with its server time) and
  the activity log after it throws or succeeds.
\<close>

datatype upload_outcome = Upload_throws | Uploaded string string string

datatype publish_outcome =
  AddDoc_throws | LogActivity_throws string int | Published string int

datatype upload_result = Upload_error | Upload_null | Upload_done string string string

definition uploadMedia :: "string option \<Rightarrow> upload_outcome \<Rightarrow> upload_result" where
  "uploadMedia file outcome =
     (case file of
        None \<Rightarrow> Upload_null
      | Some f \<Rightarrow>
          (case outcome of
             Upload_throws \<Rightarrow> Upload_error
           | Uploaded url publicId mediaType \<Rightarrow> Upload_done url publicId mediaType))"

text \<open>
  The matches of \<open>/#([a-zA-Z0-9_]+)/g\<close> without their \<open>#\<close>: a scan that holds the tag
  being read, if any.
\<close>

definition is_tag_char :: "char \<Rightarrow> bool" where
  "is_tag_char c =
     (let n = (of_char c :: nat)
      in (48 \<le> n \<and> n \<le> 57) \<or> (65 \<le> n \<and> n \<le> 90) \<or> (97 \<le> n \<and> n \<le> 122) \<or> n = 95)"

fun scanTags :: "string option \<Rightarrow> string \<Rightarrow> string list" where
  "scanTags cur [] = (case cur of None \<Rightarrow> [] | Some t \<Rightarrow> if t = [] then [] else [t])"
| "scanTags cur (c # cs) =
     (case cur of
        None \<Rightarrow> if c = CHR ''#'' then scanTags (Some []) cs else scanTags None cs
      | Some t \<Rightarrow>
          if is_tag_char c then scanTags (Some (t @ [c])) cs
          else (if t = [] then [] else [t])
               @ (if c = CHR ''#'' then scanTags (Some []) cs else scanTags None cs))"

text \<open>\<open>Array.from(new Set(xs))\<close> keeps the first occurrence of each element.\<close>

definition extractTags :: "string \<Rightarrow> string list" where
  "extractTags captionText = rev (remdups (rev (scanTags None captionText)))"

definition optimisticPost :: "int \<Rightarrow> draft \<Rightarrow> app \<Rightarrow> post" where
  "optimisticPost nowMs dr st =
     \<lparr> post_id = ''local-post-'' @ string_of_int nowMs,
       user_id = Val (currentUserId st),
       created_at = Val (Number nowMs),
       caption = trim (draftCaption dr),
       image_url = previewUrl dr,
       thumbnail_url = [],
       public_id = [],
       tags = extractTags (draftCaption dr),
       engagement_count = 0,
       reactions_count = createEmptyReactionCounts,
       reacted_by = [],
       comments_count = 0,
       comments = [],
       steeze_score = computeSteezeScore 0,
       media_type = (if postMode dr = ''reflection'' then ''image'' else ''text''),
       moderated_status = ''active'',
       delivery_status = Some ''sending'',
       fromMine = False, fromFollowing = False, fromCampus = False, fromGlobal = False,
       feedScore = None \<rparr>"

definition postPayload :: "int \<Rightarrow> post \<Rightarrow> doc_data" where
  "postPayload serverMs p =
     \<lparr> d_user_id = user_id p,
       d_created_at = Val (Timestamp serverMs),
       d_caption = caption p,
       d_image_url = image_url p,
       d_public_id = public_id p,
       d_reactions_count = Some (reactions_count p),
       d_reacted_by = Some [],
       d_likes_count = None,
       d_liked_by = None,
       d_engagement_count = Some 0,
       d_comments_count = Some 0,
       d_comments = Some [],
       d_steeze_score = Some (steeze_score p),
       d_media_type = Some (media_type p),
       d_thumbnail_url = Some (thumbnail_url p),
       d_tags = Some (tags p),
       d_moderated_status = Some ''active'' \<rparr>"

text \<open>
  \<open>createPost\<close>: guards, the optimistic post at the front of the feed, the upload (when
  a file is selected) with its catch block, then the publish write with its catch
  block. The stored document takes the uploaded URL, or no URL when nothing was
  uploaded.
\<close>

definition createPost ::
  "upload_outcome \<Rightarrow> publish_outcome \<Rightarrow> int \<Rightarrow> draft \<Rightarrow> app \<Rightarrow> app" where
  "createPost upload publish nowMs dr st =
     (if currentUserId st = [] \<or> isPublishing st then st
      else if \<not> assertCanInteract st then st
      else if trim (draftCaption dr) = [] then st
      else if postMode dr = ''reflection'' \<and> selectedFile dr = None then st
      else
        let tempId = ''local-post-'' @ string_of_int nowMs;
            fresh = optimisticPost nowMs dr st;
            st1 = st\<lparr> isPublishing := True, posts := fresh # posts st \<rparr>;
            uploaded =
              (case selectedFile dr of
                 None \<Rightarrow> Upload_null
               | Some f \<Rightarrow> uploadMedia (Some f) upload)
        in if selectedFile dr \<noteq> None \<and> uploaded = Upload_error
           then st1\<lparr> posts := filter (\<lambda>p. post_id p \<noteq> tempId) (posts st1), isPublishing := False \<rparr>
           else if selectedFile dr \<noteq> None \<and> uploaded = Upload_null
           then st1\<lparr> isPublishing := False \<rparr>
           else
             let st2 =
                   (case uploaded of
                      Upload_done url publicId mediaType \<Rightarrow>
                        st1\<lparr> posts :=
                               patchPost tempId
                                 (\<lambda>p. p\<lparr> image_url := url, media_type := mediaType,
                                         thumbnail_url := [], public_id := publicId \<rparr>)
                                 (posts st1) \<rparr>
                    | _ \<Rightarrow> st1);
                 payloadOf =
                   (\<lambda>serverMs.
                      postPayload serverMs
                        (case uploaded of
                           Upload_done url publicId mediaType \<Rightarrow>
                             fresh\<lparr> image_url := url, media_type := mediaType,
                                    thumbnail_url := [], public_id := publicId \<rparr>
                         | _ \<Rightarrow> fresh\<lparr> image_url := [] \<rparr>));
                 markFailed =
                   (\<lambda>s. s\<lparr> posts :=
                            patchPost tempId (\<lambda>p. p\<lparr> delivery_status := Some ''failed'' \<rparr>) (posts s) \<rparr>);
                 st3 =
                   (if remoteEnabled st then
                      (case publish of
                         AddDoc_throws \<Rightarrow> markFailed st2
                       | LogActivity_throws docId serverMs \<Rightarrow>
                           markFailed (st2\<lparr> store := (store st2)(docId \<mapsto> payloadOf serverMs) \<rparr>)
                       | Published docId serverMs \<Rightarrow>
                           st2\<lparr> store := (store st2)(docId \<mapsto> payloadOf serverMs),
                                posts :=
                                  patchPost tempId
                                    (\<lambda>p. p\<lparr> post_id := docId, delivery_status := Some ''sent'' \<rparr>)
                                    (posts st2) \<rparr>)
                    else st2)
             in st3\<lparr> isPublishing := False \<rparr>)"

section \<open>Predicates, runs and concrete inputs of the properties\<close>

text \<open>
  The reaction accounting invariant. A reacted-by map is normal when every user occurs
  once, no user is empty and every kind is a known one; it is accounted for by the
  counts when each known kind's count is the number of users mapped to that kind.
\<close>

definition kind_count :: "(string \<times> string) list \<Rightarrow> string \<Rightarrow> int" where
  "kind_count rb k = int (length (filter (\<lambda>e. snd e = k) rb))"

definition normal_rb :: "(string \<times> string) list \<Rightarrow> bool" where
  "normal_rb rb = (distinct (map fst rb) \<and> (\<forall>e \<in> set rb. fst e \<noteq> [] \<and> snd e \<in> set reactionKeys))"

definition accounted :: "(string \<times> string) list \<Rightarrow> (string \<times> int) list \<Rightarrow> bool" where
  "accounted rb counts = (\<forall>k \<in> set reactionKeys. count_of counts k = kind_count rb k)"

definition post_ok :: "post \<Rightarrow> bool" where
  "post_ok p = (normal_rb (reacted_by p) \<and> accounted (reacted_by p) (reactions_count p))"

text \<open>
  The delta of one toggle as both the optimistic step and the transaction compute it,
  on an already normalised reacted-by map and counts.
\<close>

definition toggled_rb :: "string \<Rightarrow> string \<Rightarrow> (string \<times> string) list \<Rightarrow> (string \<times> string) list" where
  "toggled_rb uid key rb =
     (if map_of rb uid = Some key then AList.delete uid rb else AList.update uid key rb)"

definition toggled_counts ::
  "string \<Rightarrow> string \<Rightarrow> (string \<times> string) list \<Rightarrow> (string \<times> int) list \<Rightarrow> (string \<times> int) list" where
  "toggled_counts uid key rb c =
     (let decremented =
            (case map_of rb uid of
               None \<Rightarrow> c
             | Some cur \<Rightarrow> if count_of c cur > 0 then AList.update cur (count_of c cur - 1) c else c)
      in if map_of rb uid = Some key then decremented
         else AList.update key (count_of decremented key + 1) decremented)"

text \<open>
  The invariant on the feed and on the store, and a run of \<open>reactToPost\<close> calls, each
  with its acting user, remote outcome, post and kind.
\<close>

definition users_once :: "app \<Rightarrow> bool" where
  "users_once st = list_all (\<lambda>p. normal_rb (reacted_by p)) (posts st)"

definition posts_ok :: "app \<Rightarrow> bool" where
  "posts_ok st = list_all post_ok (posts st)"

definition doc_ok :: "doc_data \<Rightarrow> bool" where
  "doc_ok d = accounted (normalizeReactedBy (d_reacted_by d)) (normalizeReactionCounts (d_reactions_count d))"

definition store_ok :: "app \<Rightarrow> bool" where
  "store_ok st = (\<forall>d \<in> ran (store st). doc_ok d)"

fun reactionRun :: "(string \<times> remote_outcome \<times> string \<times> string) list \<Rightarrow> app \<Rightarrow> app" where
  "reactionRun [] st = st"
| "reactionRun ((uid, outcome, postId, reactionKey) # evs) st =
     reactionRun evs (reactToPost outcome postId reactionKey (st\<lparr> currentUserId := uid \<rparr>))"

text \<open>Concrete documents, states, drafts and buckets.\<close>

definition empty_doc :: doc_data where
  "empty_doc = \<lparr> d_user_id = Absent, d_created_at = Absent, d_caption = [], d_image_url = [],
      d_public_id = [], d_reactions_count = None, d_reacted_by = None, d_likes_count = None,
      d_liked_by = None, d_engagement_count = None, d_comments_count = None, d_comments = None,
      d_steeze_score = None, d_media_type = None, d_thumbnail_url = None, d_tags = None,
      d_moderated_status = None \<rparr>"

definition empty_app :: app where
  "empty_app = \<lparr> posts = [], pendingReactions = {}, pendingComments = {}, currentUserId = [],
      suspended = False, remoteEnabled = True, isAdmin = False, isPublishing = False,
      selectedHashtag = [], feedVisibleCount = 12, feedFetchLimit = 180,
      reflectionCommentDrafts = Map.empty, privateAccount = False, privateAlias = [],
      displayName = [], username = [], avatarUrl = [], store = Map.empty \<rparr>"

definition scenario_doc :: doc_data where
  "scenario_doc = empty_doc\<lparr>
      d_reactions_count := Some [(''love'', 2), (''thumbs_up'', 1)],
      d_reacted_by := Some [(''u1'', ''love''), (''u2'', ''love''), (''u3'', ''thumbs_up'')] \<rparr>"

definition scenario_app :: app where
  "scenario_app = empty_app\<lparr> posts := [normalizePost ''p1'' scenario_doc],
                              store := [''p1'' \<mapsto> scenario_doc] \<rparr>"

definition settled_doc :: doc_data where
  "settled_doc = scenario_doc\<lparr> d_engagement_count := Some 3, d_steeze_score := Some (3 / 10) \<rparr>"

definition settled_app :: app where
  "settled_app = empty_app\<lparr> posts := [normalizePost ''p1'' settled_doc],
                             store := [''p1'' \<mapsto> settled_doc], currentUserId := ''u4'' \<rparr>"

definition hidden_app :: app where
  "hidden_app = empty_app\<lparr> posts :=
     [normalizePost ''p1'' scenario_doc,
      normalizePost ''p2'' (scenario_doc\<lparr> d_moderated_status := Some ''hidden'' \<rparr>)] \<rparr>"

definition text_doc :: doc_data where
  "text_doc = empty_doc\<lparr> d_media_type := Some ''text'' \<rparr>"

definition long_feed_app :: app where
  "long_feed_app = empty_app\<lparr> posts := map (\<lambda>n. normalizePost (string_of_nat n) text_doc) [0..<14] \<rparr>"

definition comment_app :: app where
  "comment_app = empty_app\<lparr> posts := [normalizePost ''p1'' scenario_doc],
      store := [''p1'' \<mapsto> scenario_doc], currentUserId := ''u4'', username := ''@ada'',
      reflectionCommentDrafts := [''p1'' \<mapsto> '' nice fit ''] \<rparr>"

definition composer_app :: app where
  "composer_app = empty_app\<lparr> currentUserId := ''u1'' \<rparr>"

definition text_draft :: draft where
  "text_draft = \<lparr> draftCaption = ''hello #campus'', postMode = ''text'',
                  selectedFile = None, previewUrl = [] \<rparr>"

definition media_draft :: draft where
  "media_draft = \<lparr> draftCaption = ''fit check'', postMode = ''reflection'',
                   selectedFile = Some ''photo.png'', previewUrl = ''blob:1'' \<rparr>"

definition at_ms :: "int \<Rightarrow> doc_data" where
  "at_ms ms = text_doc\<lparr> d_created_at := Val (Timestamp ms) \<rparr>"

definition boost_buckets :: bucketState where
  "boost_buckets = \<lparr> campus = [normalizePost ''p'' (at_ms 31600000)],
                      mine = [normalizePost ''p'' (at_ms 31600000)],
                      following = [], global = [] \<rparr>"

definition tie_buckets :: bucketState where
  "tie_buckets = \<lparr> campus = [normalizePost ''a'' (at_ms 89200000)],
                    mine = [],
                    following = [],
                    global = [normalizePost ''b'' (at_ms 100000000), normalizePost ''a'' (at_ms 89200000)] \<rparr>"

text \<open>
  The rows of all buckets in the order \<open>rankPosts\<close> merges them, alone and with the
  source they are merged under, and what the merge holds for an identifier after a
  prefix of them: the flags of exactly the sources seen, and the creation time of one
  of the rows.
\<close>

definition allRows :: "bucketState \<Rightarrow> post list" where
  "allRows b = mine b @ campus b @ concat (following b) @ global b"

definition tagged :: "bucketState \<Rightarrow> (post \<times> string) list" where
  "tagged b =
     map (\<lambda>r. (r, ''mine'')) (mine b) @ map (\<lambda>r. (r, ''campus'')) (campus b)
     @ map (\<lambda>r. (r, ''following'')) (concat (following b)) @ map (\<lambda>r. (r, ''global'')) (global b)"

definition has_source :: "(post \<times> string) list \<Rightarrow> string \<Rightarrow> string \<Rightarrow> bool" where
  "has_source rs k s = (\<exists>r. (r, s) \<in> set rs \<and> post_id r = k)"

definition merged_entry :: "(post \<times> string) list \<Rightarrow> string \<Rightarrow> post \<Rightarrow> bool" where
  "merged_entry rs k p =
     (post_id p = k
      \<and> (fromMine p \<longleftrightarrow> has_source rs k ''mine'')
      \<and> (fromFollowing p \<longleftrightarrow> has_source rs k ''following'')
      \<and> (fromCampus p \<longleftrightarrow> has_source rs k ''campus'')
      \<and> (fromGlobal p \<longleftrightarrow> has_source rs k ''global'')
      \<and> (\<exists>r s. (r, s) \<in> set rs \<and> post_id r = k \<and> created_at r = created_at p))"

text \<open>
  Every element once, at the place of its first occurrence; and the interaction weights
  \<open>rankPosts\<close> computes from the merged posts.
\<close>

definition firstOccurrences :: "'a list \<Rightarrow> 'a list" where
  "firstOccurrences xs = rev (remdups (rev xs))"

definition feedWeights :: "string \<Rightarrow> bucketState \<Rightarrow> (string \<times> int) list \<times> (string jsval \<times> int) list" where
  "feedWeights uid b = interactionWeights uid (map snd (mergeBuckets b))"

definition window_buckets :: bucketState where
  "window_buckets = \<lparr> campus = [normalizePost ''f'' (at_ms 96400000), normalizePost ''o'' (at_ms 10000000),
                                normalizePost ''n'' text_doc],
                       mine = [normalizePost ''o'' (at_ms 10000000)],
                       following = [], global = [] \<rparr>"

section \<open>Properties\<close>

lemma normalizeReactionCounts_Some:
  "normalizeReactionCounts (Some c) = map (\<lambda>k. (k, count_of c k)) reactionKeys"
  by (simp add: normalizeReactionCounts_def createEmptyReactionCounts_def reactionKeys_def)

lemma normalizeReactionCounts_None:
  "normalizeReactionCounts None = map (\<lambda>k. (k, 0)) reactionKeys"
  by (simp add: normalizeReactionCounts_def createEmptyReactionCounts_def reactionKeys_def)

lemma count_of_map_keys:
  "count_of (map (\<lambda>k. (k, f k)) ks) k = (if k \<in> set ks then f k else 0)"
  by (induction ks) (auto simp: count_of_def)

lemma count_of_normalize:
  "k \<in> set reactionKeys \<Longrightarrow> count_of (normalizeReactionCounts (Some c)) k = count_of c k"
  by (simp add: normalizeReactionCounts_Some count_of_map_keys)

lemma computeReactionTotal_sum:
  "computeReactionTotal c = sum_list (map (count_of c) reactionKeys)"
  by (simp add: computeReactionTotal_def normalizeReactionCounts_Some count_of_map_keys)
     (simp add: reactionKeys_def)

lemma count_of_update:
  "count_of (AList.update a v c) k = (if k = a then v else count_of c k)"
  by (simp add: count_of_def update_conv')

lemma rebuild_from_keys:
  "map fst c = ks \<Longrightarrow> distinct ks \<Longrightarrow> map (\<lambda>k. (k, count_of c k)) ks = c"
proof (induction c arbitrary: ks)
  case Nil then show ?case by simp
next
  case (Cons e c)
  then obtain ks' where ks: "ks = fst e # ks'" "map fst c = ks'" "distinct ks'" "fst e \<notin> set ks'"
    by auto
  have "map (\<lambda>k. (k, count_of (e # c) k)) ks' = map (\<lambda>k. (k, count_of c k)) ks'"
    using ks(4) by (intro map_cong) (auto simp: count_of_def)
  with Cons.IH[OF ks(2,3)] ks show ?case by (cases e) (simp add: count_of_def)
qed

lemma update_append_fresh:
  "k \<notin> fst ` set al \<Longrightarrow> AList.update k v al = al @ [(k, v)]"
  by (induction al) auto

lemma valid_update:
  "\<forall>e \<in> set acc. P e \<Longrightarrow> P (k, v) \<Longrightarrow> \<forall>e \<in> set (AList.update k v acc). P e"
  by (induction acc) auto

lemma foldl_invariant:
  "P acc \<Longrightarrow> (\<And>a x. P a \<Longrightarrow> P (f a x)) \<Longrightarrow> P (foldl f acc xs)"
  by (induction xs arbitrary: acc) simp_all

lemma normal_rb_update:
  "normal_rb rb \<Longrightarrow> u \<noteq> [] \<Longrightarrow> k \<in> set reactionKeys \<Longrightarrow> normal_rb (AList.update u k rb)"
proof -
  assume n: "normal_rb rb" and u: "u \<noteq> []" and k: "k \<in> set reactionKeys"
  have "\<forall>e \<in> set (AList.update u k rb). fst e \<noteq> [] \<and> snd e \<in> set reactionKeys"
    by (rule valid_update) (use n u k in \<open>auto simp: normal_rb_def\<close>)
  then show ?thesis using n by (simp add: normal_rb_def distinct_update)
qed

lemma normal_rb_delete:
  "normal_rb rb \<Longrightarrow> normal_rb (AList.delete u rb)"
proof -
  assume n: "normal_rb rb"
  have "set (AList.delete u rb) \<subseteq> set rb" by (auto simp: AList.delete_eq)
  then show ?thesis using n unfolding normal_rb_def by (auto simp: distinct_delete)
qed

lemma normal_rb_normalizeReactedBy: "normal_rb (normalizeReactedBy v)"
proof (cases v)
  case None
  then show ?thesis by (simp add: normalizeReactedBy_def normal_rb_def)
next
  case (Some obj)
  have "normal_rb (foldl (\<lambda>next (userId, reactionKey).
                   if userId = [] \<or> reactionKey \<notin> set reactionKeys then next
                   else AList.update userId reactionKey next) [] obj)"
  proof (rule foldl_invariant)
    show "normal_rb []" by (simp add: normal_rb_def)
  next
    fix a :: "(string \<times> string) list" and x :: "string \<times> string"
    assume "normal_rb a"
    then show "normal_rb (case x of (userId, reactionKey) \<Rightarrow>
                   if userId = [] \<or> reactionKey \<notin> set reactionKeys then a
                   else AList.update userId reactionKey a)"
      by (cases x) (simp add: normal_rb_update)
  qed
  with Some show ?thesis by (simp add: normalizeReactedBy_def)
qed

lemma normalizeReactedBy_fold_append:
  "distinct (map fst (acc @ obj)) \<Longrightarrow>
   foldl (\<lambda>next (userId, reactionKey).
                   if userId = [] \<or> reactionKey \<notin> set reactionKeys then next
                   else AList.update userId reactionKey next) acc obj
   = acc @ filter (\<lambda>e. \<not> (fst e = [] \<or> snd e \<notin> set reactionKeys)) obj"
proof (induction obj arbitrary: acc)
  case Nil then show ?case by simp
next
  case (Cons x obj)
  obtain u k where x: "x = (u, k)" by (cases x)
  show ?case
  proof (cases "u = [] \<or> k \<notin> set reactionKeys")
    case True
    have "distinct (map fst (acc @ obj))" using Cons.prems by simp
    from Cons.IH[OF this] True x show ?thesis by simp
  next
    case False
    have fresh: "u \<notin> fst ` set acc" using Cons.prems x by auto
    have "distinct (map fst ((acc @ [(u, k)]) @ obj))" using Cons.prems x by auto
    from Cons.IH[OF this] False x fresh show ?thesis by (simp add: update_append_fresh)
  qed
qed

lemma normalizeReactedBy_normal:
  assumes "normal_rb rb" shows "normalizeReactedBy (Some rb) = rb"
proof -
  have "filter (\<lambda>e. \<not> (fst e = [] \<or> snd e \<notin> set reactionKeys)) rb = rb"
    using assms by (auto simp: normal_rb_def filter_id_conv)
  moreover have "distinct (map fst ([] @ rb))" using assms by (simp add: normal_rb_def)
  ultimately show ?thesis
    using normalizeReactedBy_fold_append[of "[]" rb] by (simp add: normalizeReactedBy_def)
qed

lemma kind_count_delete:
  "distinct (map fst rb) \<Longrightarrow>
   kind_count (AList.delete u rb) k = kind_count rb k - (if map_of rb u = Some k then 1 else 0)"
proof (induction rb)
  case Nil then show ?case by (simp add: kind_count_def)
next
  case (Cons e rb)
  have "fst e \<notin> fst ` set rb" using Cons.prems by simp
  then have notin: "map_of rb (fst e) = None" by (simp add: map_of_eq_None_iff)
  have "fst e = u \<Longrightarrow> AList.delete u rb = rb"
    using \<open>fst e \<notin> fst ` set rb\<close> by simp
  then show ?case using Cons notin
    by (cases e) (auto simp: kind_count_def)
qed

lemma kind_count_update:
  "distinct (map fst rb) \<Longrightarrow>
   kind_count (AList.update u v rb) k =
     kind_count rb k - (if map_of rb u = Some k then 1 else 0) + (if v = k then 1 else 0)"
proof (induction rb)
  case Nil then show ?case by (simp add: kind_count_def)
next
  case (Cons e rb)
  have "fst e \<notin> fst ` set rb" using Cons.prems by simp
  then have notin: "map_of rb (fst e) = None" by (simp add: map_of_eq_None_iff)
  show ?case using Cons notin
    by (cases e) (auto simp: kind_count_def)
qed

lemma kind_count_pos:
  "map_of rb u = Some k \<Longrightarrow> kind_count rb k > 0"
proof -
  assume "map_of rb u = Some k"
  then have "(u, k) \<in> set rb" by (rule map_of_SomeD)
  then have "(u, k) \<in> set (filter (\<lambda>e. snd e = k) rb)" by simp
  then have "filter (\<lambda>e. snd e = k) rb \<noteq> []" by fastforce
  then show ?thesis by (simp add: kind_count_def)
qed

lemma sum_kind_count_general:
  "distinct ks \<Longrightarrow> \<forall>e \<in> set rb. snd e \<in> set ks \<Longrightarrow>
   sum_list (map (kind_count rb) ks) = int (length rb)"
proof (induction rb)
  case Nil then show ?case by (simp add: kind_count_def)
next
  case (Cons e rb)
  have one: "sum_list (map (\<lambda>k. if snd e = k then 1 else 0) ks) = (1::int)"
    using Cons.prems by (simp add: sum_list_distinct_conv_sum_set)
  have "sum_list (map (kind_count (e # rb)) ks)
        = sum_list (map (\<lambda>k. (if snd e = k then 1 else 0) + kind_count rb k) ks)"
    by (intro arg_cong[where f=sum_list] map_cong) (auto simp: kind_count_def)
  also have "\<dots> = sum_list (map (\<lambda>k. if snd e = k then 1 else 0) ks) + sum_list (map (kind_count rb) ks)"
    by (simp add: sum_list_addf)
  finally show ?case using one Cons by simp
qed

lemma distinct_reactionKeys: "distinct reactionKeys"
  by (simp add: reactionKeys_def)

lemma accounted_total:
  assumes "normal_rb rb" "accounted rb c"
  shows "computeReactionTotal c = int (length rb)"
proof -
  have eq: "map (count_of c) reactionKeys = map (kind_count rb) reactionKeys"
    using assms(2) by (simp add: accounted_def)
  have "sum_list (map (kind_count rb) reactionKeys) = int (length rb)"
    by (rule sum_kind_count_general[OF distinct_reactionKeys]) (use assms(1) in \<open>simp add: normal_rb_def\<close>)
  then show ?thesis unfolding computeReactionTotal_sum eq .
qed

lemma accounted_normalize:
  "accounted rb (normalizeReactionCounts (Some c)) = accounted rb c"
  by (simp add: accounted_def count_of_normalize)

lemma toggled_rb_normal:
  "normal_rb rb \<Longrightarrow> uid \<noteq> [] \<Longrightarrow> key \<in> set reactionKeys \<Longrightarrow> normal_rb (toggled_rb uid key rb)"
  by (simp add: toggled_rb_def normal_rb_update normal_rb_delete)

lemma toggled_accounted:
  assumes n: "normal_rb rb" and a: "accounted rb c" and key: "key \<in> set reactionKeys"
  shows "accounted (toggled_rb uid key rb) (toggled_counts uid key rb c)"
proof -
  have d: "distinct (map fst rb)" using n by (simp add: normal_rb_def)
  show ?thesis
  proof (cases "map_of rb uid")
    case None
    then show ?thesis using a key
      by (auto simp: accounted_def toggled_rb_def toggled_counts_def count_of_update
                     kind_count_update[OF d])
  next
    case (Some cur)
    then have "(uid, cur) \<in> set rb" by (rule map_of_SomeD)
    then have cur: "cur \<in> set reactionKeys" using n by (auto simp: normal_rb_def)
    have pos: "count_of c cur > 0" using kind_count_pos[OF Some] a cur by (simp add: accounted_def)
    show ?thesis
    proof (cases "cur = key")
      case True
      then show ?thesis using Some a pos
        by (auto simp: accounted_def toggled_rb_def toggled_counts_def count_of_update
                       kind_count_delete[OF d])
    next
      case False
      then show ?thesis using Some a pos key
        by (auto simp: accounted_def toggled_rb_def toggled_counts_def count_of_update
                       kind_count_update[OF d])
    qed
  qed
qed

lemma reactionNext_toggled:
  "normal_rb (reacted_by target) \<Longrightarrow>
   reactionNext uid key target =
     (let rb = reacted_by target; c = normalizeReactionCounts (Some (reactions_count target));
          c' = toggled_counts uid key rb c
      in \<lparr> rf_reacted_by = toggled_rb uid key rb, rf_reactions_count = c',
           rf_engagement_count = computeReactionTotal c',
           rf_steeze_score = computeSteezeScore (computeReactionTotal c') \<rparr>)"
  by (simp add: reactionNext_def normalizeReactedBy_normal toggled_rb_def toggled_counts_def Let_def
           split: option.splits)

lemma reactionNext_ok:
  assumes "post_ok target" "key \<in> set reactionKeys" "uid \<noteq> []"
  shows "post_ok (write_reaction (reactionNext uid key target) p)"
proof -
  have n: "normal_rb (reacted_by target)" using assms(1) by (simp add: post_ok_def)
  have a: "accounted (reacted_by target) (normalizeReactionCounts (Some (reactions_count target)))"
    using assms(1) by (simp add: post_ok_def accounted_normalize)
  show ?thesis
    using toggled_rb_normal[OF n assms(3,2)] toggled_accounted[OF n a assms(2), of uid]
    by (simp add: post_ok_def write_reaction_def reactionNext_toggled[OF n] Let_def)
qed

lemma reactionRollback_ok:
  assumes "post_ok target"
  shows "post_ok (write_reaction (reactionRollback target) p)"
  using assms
  by (simp add: post_ok_def write_reaction_def reactionRollback_def Let_def
                normalizeReactedBy_normal accounted_normalize)

lemma patchPost_ok:
  "list_all post_ok ps \<Longrightarrow> (\<And>p. post_ok (f p)) \<Longrightarrow> list_all post_ok (patchPost postId f ps)"
  by (induction ps) (auto simp: patchPost_def)

lemma reactionTransaction_ok:
  assumes "doc_ok d" "key \<in> set reactionKeys" "uid \<noteq> []"
  shows "doc_ok (reactionTransaction uid key d)"
proof -
  let ?rb = "normalizeReactedBy (d_reacted_by d)"
  let ?c = "normalizeReactionCounts (d_reactions_count d)"
  have n: "normal_rb ?rb" by (rule normal_rb_normalizeReactedBy)
  have a: "accounted ?rb ?c" using assms(1) by (simp add: doc_ok_def)
  have rb: "d_reacted_by (reactionTransaction uid key d) = Some (toggled_rb uid key ?rb)"
    by (simp add: reactionTransaction_def toggled_rb_def Let_def)
  have c: "d_reactions_count (reactionTransaction uid key d) = Some (toggled_counts uid key ?rb ?c)"
    by (simp add: reactionTransaction_def toggled_counts_def Let_def split: option.splits)
  show ?thesis
    unfolding doc_ok_def rb c
    using toggled_rb_normal[OF n assms(3,2)] toggled_accounted[OF n a assms(2), of uid]
    by (simp add: normalizeReactedBy_normal accounted_normalize)
qed

lemma runReactionTransaction_ok:
  assumes "\<forall>d \<in> ran db. doc_ok d" "key \<in> set reactionKeys" "uid \<noteq> []"
  shows "\<forall>d \<in> ran (runReactionTransaction uid postId key db). doc_ok d"
proof (cases "db postId")
  case None
  then show ?thesis using assms(1) by (simp add: runReactionTransaction_def)
next
  case (Some d0)
  then have "doc_ok d0" using assms(1) by (auto simp: ran_def)
  then have ok: "doc_ok (reactionTransaction uid key d0)" using assms(2,3) by (rule reactionTransaction_ok)
  show ?thesis
  proof
    fix d assume "d \<in> ran (runReactionTransaction uid postId key db)"
    then obtain i where "(db(postId \<mapsto> reactionTransaction uid key d0)) i = Some d"
      using Some by (auto simp: runReactionTransaction_def ran_def)
    then show "doc_ok d" using ok assms(1) by (cases "i = postId") (auto simp: ran_def)
  qed
qed

lemma find_post_ok:
  "list_all post_ok ps \<Longrightarrow> find P ps = Some t \<Longrightarrow> post_ok t"
  by (induction ps) (auto split: if_splits)

lemma reactToPost_ok:
  assumes "posts_ok st" "store_ok st"
  shows "posts_ok (reactToPost outcome postId key st) \<and> store_ok (reactToPost outcome postId key st)"
proof (cases "key \<in> set reactionKeys \<and> currentUserId st \<noteq> [] \<and> assertCanInteract st
              \<and> postId \<notin> pendingReactions st")
  case False
  then show ?thesis using assms by (auto simp: reactToPost_def split: option.splits)
next
  case guards: True
  show ?thesis
  proof (cases "find (\<lambda>p. post_id p = postId) (posts st)")
    case None
    then show ?thesis using assms by (simp add: reactToPost_def)
  next
    case (Some target)
    have t: "post_ok target" using assms(1) Some by (auto simp: posts_ok_def intro: find_post_ok)
    have nxt: "\<And>p. post_ok (write_reaction (reactionNext (currentUserId st) key target) p)"
      using t guards by (simp add: reactionNext_ok)
    have rbk: "\<And>p. post_ok (write_reaction (reactionRollback target) p)"
      using t by (simp add: reactionRollback_ok)
    have p1: "list_all post_ok
               (patchPost postId (write_reaction (reactionNext (currentUserId st) key target)) (posts st))"
      using assms(1) nxt by (simp add: posts_ok_def patchPost_ok)
    have p2: "list_all post_ok (patchPost postId (write_reaction (reactionRollback target))
               (patchPost postId (write_reaction (reactionNext (currentUserId st) key target)) (posts st)))"
      using p1 rbk by (simp add: patchPost_ok)
    have s1: "\<forall>d \<in> ran (runReactionTransaction (currentUserId st) postId key (store st)). doc_ok d"
      by (rule runReactionTransaction_ok) (use assms(2) guards in \<open>simp_all add: store_ok_def\<close>)
    show ?thesis
      using guards Some p1 p2 s1 assms(2)
      by (cases outcome) (simp_all add: reactToPost_def Let_def posts_ok_def store_ok_def)
  qed
qed

lemma patchPost_all:
  "list_all Q ps \<Longrightarrow> (\<And>p. Q (f p)) \<Longrightarrow> list_all Q (patchPost postId f ps)"
  by (induction ps) (auto simp: patchPost_def)

lemma reactionNext_normal:
  assumes "key \<in> set reactionKeys" "uid \<noteq> []"
  shows "normal_rb (rf_reacted_by (reactionNext uid key target))"
  using assms normal_rb_normalizeReactedBy[of "Some (reacted_by target)"]
  by (simp add: reactionNext_def Let_def normal_rb_update normal_rb_delete)

lemma reactToPost_users_once:
  assumes "users_once st"
  shows "users_once (reactToPost outcome postId key st)"
proof (cases "key \<in> set reactionKeys \<and> currentUserId st \<noteq> [] \<and> assertCanInteract st
              \<and> postId \<notin> pendingReactions st")
  case False
  then show ?thesis using assms by (auto simp: reactToPost_def split: option.splits)
next
  case guards: True
  show ?thesis
  proof (cases "find (\<lambda>p. post_id p = postId) (posts st)")
    case None
    then show ?thesis using assms by (simp add: reactToPost_def)
  next
    case (Some target)
    let ?Q = "\<lambda>p. normal_rb (reacted_by p)"
    have nxt: "\<And>p. ?Q (write_reaction (reactionNext (currentUserId st) key target) p)"
      using guards by (simp add: write_reaction_def reactionNext_normal)
    have rbk: "\<And>p. ?Q (write_reaction (reactionRollback target) p)"
      by (simp add: write_reaction_def reactionRollback_def Let_def normal_rb_normalizeReactedBy)
    have p1: "list_all ?Q
               (patchPost postId (write_reaction (reactionNext (currentUserId st) key target)) (posts st))"
      by (rule patchPost_all) (use assms nxt in \<open>simp_all add: users_once_def\<close>)
    have p2: "list_all ?Q (patchPost postId (write_reaction (reactionRollback target))
               (patchPost postId (write_reaction (reactionNext (currentUserId st) key target)) (posts st)))"
      by (rule patchPost_all) (use p1 rbk in simp_all)
    show ?thesis
      using guards Some p1 p2
      by (cases outcome) (simp_all add: reactToPost_def Let_def users_once_def)
  qed
qed

lemma reactionRun_users_once:
  "users_once st \<Longrightarrow> users_once (reactionRun evs st)"
proof (induction evs arbitrary: st)
  case Nil then show ?case by simp
next
  case (Cons ev evs)
  obtain uid outcome postId key where ev: "ev = (uid, outcome, postId, key)" by (cases ev)
  have "users_once (st\<lparr>currentUserId := uid\<rparr>)"
    using Cons.prems by (simp add: users_once_def)
  then have "users_once (reactToPost outcome postId key (st\<lparr>currentUserId := uid\<rparr>))"
    by (rule reactToPost_users_once)
  then show ?case using Cons.IH ev by simp
qed

lemma reactionRun_ok:
  "posts_ok st \<Longrightarrow> store_ok st \<Longrightarrow> posts_ok (reactionRun evs st) \<and> store_ok (reactionRun evs st)"
proof (induction evs arbitrary: st)
  case Nil then show ?case by simp
next
  case (Cons ev evs)
  obtain uid outcome postId key where ev: "ev = (uid, outcome, postId, key)" by (cases ev)
  have "posts_ok (st\<lparr>currentUserId := uid\<rparr>)" "store_ok (st\<lparr>currentUserId := uid\<rparr>)"
    using Cons.prems by (simp_all add: posts_ok_def store_ok_def)
  then have "posts_ok (reactToPost outcome postId key (st\<lparr>currentUserId := uid\<rparr>))
           \<and> store_ok (reactToPost outcome postId key (st\<lparr>currentUserId := uid\<rparr>))"
    by (rule reactToPost_ok)
  then show ?case using Cons.IH ev by simp
qed

lemma normalizePost_normal_rb: "normal_rb (reacted_by (normalizePost docId d))"
proof -
  have liked: "normal_rb (foldl (\<lambda>rb userId.
                           if userId \<noteq> [] \<and> map_of rb userId = None
                           then AList.update userId ''thumbs_up'' rb else rb)
                        (normalizeReactedBy v) l)" for l v
  proof (rule foldl_invariant)
    show "normal_rb (normalizeReactedBy v)" by (rule normal_rb_normalizeReactedBy)
  next
    fix a :: "(string \<times> string) list" and x :: string
    assume "normal_rb a"
    then show "normal_rb (if x \<noteq> [] \<and> map_of a x = None then AList.update x ''thumbs_up'' a else a)"
      by (simp add: normal_rb_update reactionKeys_def)
  qed
  show ?thesis
    by (simp add: normalizePost_def Let_def liked normal_rb_normalizeReactedBy)
qed

lemma normalizePost_canonical_ok:
  assumes "d_reactions_count d \<noteq> None" "d_reacted_by d \<noteq> None" "doc_ok d"
  shows "post_ok (normalizePost docId d)"
  using assms normal_rb_normalizeReactedBy[of "d_reacted_by d"]
  by (auto simp: post_ok_def normalizePost_def doc_ok_def Let_def)

text \<open>
  Claim C1, as the code has it. A reacted-by map is normal when it holds each user
  once, only non-empty users and known kinds; a post is accounted when its map is
  normal and every kind's count equals the number of users mapped to that kind.

  \<^item> \<open>normalizePost\<close> always yields a normal map, and a feed of posts with normal maps
    stays one under any sequence of \<open>reactToPost\<close> calls (any acting users, posts, kinds
    and remote outcomes): no user is ever mapped to two kinds.
  \<^item> If the posts of the feed and the documents of the store are accounted, they still
    are after any such sequence, and then in every post the sum of the counts equals
    the number of reacted-by entries.
  \<^item> \<open>normalizePost\<close> yields an accounted post when the document stores both canonical
    reaction fields and is accounted.
\<close>

theorem reaction_accounting_preserved:
  "normal_rb (reacted_by (normalizePost docId d))
   \<and> (users_once st \<longrightarrow>
        users_once (reactionRun evs st)
        \<and> (\<forall>p \<in> set (posts (reactionRun evs st)). distinct (map fst (reacted_by p))))
   \<and> (posts_ok st \<and> store_ok st \<longrightarrow>
        posts_ok (reactionRun evs st) \<and> store_ok (reactionRun evs st)
        \<and> (\<forall>p \<in> set (posts (reactionRun evs st)).
              computeReactionTotal (reactions_count p) = int (length (reacted_by p))))
   \<and> (d_reactions_count d \<noteq> None \<and> d_reacted_by d \<noteq> None \<and> doc_ok d \<longrightarrow>
        post_ok (normalizePost docId d)
        \<and> computeReactionTotal (reactions_count (normalizePost docId d))
            = int (length (reacted_by (normalizePost docId d))))"
proof -
  have each: "computeReactionTotal (reactions_count p) = int (length (reacted_by p))"
    if "post_ok p" for p
    using that accounted_total[of "reacted_by p" "reactions_count p"] by (simp add: post_ok_def)
  have a: "normal_rb (reacted_by (normalizePost docId d))" by (rule normalizePost_normal_rb)
  have b: "users_once (reactionRun evs st)
        \<and> (\<forall>p \<in> set (posts (reactionRun evs st)). distinct (map fst (reacted_by p)))"
    if "users_once st"
  proof -
    have u: "users_once (reactionRun evs st)" using that by (rule reactionRun_users_once)
    then show ?thesis by (simp add: users_once_def list_all_iff normal_rb_def)
  qed
  have c: "posts_ok (reactionRun evs st) \<and> store_ok (reactionRun evs st)
        \<and> (\<forall>p \<in> set (posts (reactionRun evs st)).
              computeReactionTotal (reactions_count p) = int (length (reacted_by p)))"
    if "posts_ok st" "store_ok st"
  proof -
    have run: "posts_ok (reactionRun evs st) \<and> store_ok (reactionRun evs st)"
      using that by (rule reactionRun_ok)
    then show ?thesis using each by (simp add: posts_ok_def list_all_iff)
  qed
  have e: "post_ok (normalizePost docId d)
        \<and> computeReactionTotal (reactions_count (normalizePost docId d))
            = int (length (reacted_by (normalizePost docId d)))"
    if "d_reactions_count d \<noteq> None" "d_reacted_by d \<noteq> None" "doc_ok d"
    using normalizePost_canonical_ok[OF that] each by blast
  from a b c e show ?thesis by blast
qed

text \<open>
  \<open>normalizePost\<close> does not establish the equality by itself: a legacy document with
  \<open>likes_count = 2\<close> and no \<open>liked_by\<close> list becomes a post whose counts sum to 2 while
  its reacted-by map is empty.
\<close>

theorem normalizePost_unaccounted_counterexample:
  "computeReactionTotal (reactions_count (normalizePost ''p1'' (empty_doc\<lparr> d_likes_count := Some 2 \<rparr>))) = 2
   \<and> length (reacted_by (normalizePost ''p1'' (empty_doc\<lparr> d_likes_count := Some 2 \<rparr>))) = 0"
  by (simp add: normalizePost_def empty_doc_def normalizeReactedBy_def normalizeReactionCounts_def
        createEmptyReactionCounts_def computeReactionTotal_def count_of_def reactionKeys_def int_or_def Let_def)

lemma normalizePost_scenario:
  "normalizePost ''p1'' scenario_doc =
     \<lparr> post_id = ''p1'', user_id = Absent, created_at = Absent, caption = [], image_url = [],
       thumbnail_url = [], public_id = [], tags = [], engagement_count = 3,
       reactions_count = [(''annoyed'', 0), (''love'', 2), (''surprised'', 0), (''thumbs_up'', 1), (''laugh'', 0)],
       reacted_by = [(''u1'', ''love''), (''u2'', ''love''), (''u3'', ''thumbs_up'')],
       comments_count = 0, comments = [], steeze_score = 0, media_type = ''image'',
       moderated_status = ''active'', delivery_status = None,
       fromMine = False, fromFollowing = False, fromCampus = False, fromGlobal = False,
       feedScore = None \<rparr>"
  by (simp add: normalizePost_def scenario_doc_def empty_doc_def normalizeReactedBy_def
        normalizeReactionCounts_def createEmptyReactionCounts_def computeReactionTotal_def
        count_of_def reactionKeys_def int_or_def rat_or_def str_or_def Let_def)

lemma scenario_doc_ok: "doc_ok scenario_doc"
  by (simp add: doc_ok_def scenario_doc_def empty_doc_def accounted_def kind_count_def
        normalizeReactedBy_def normalizeReactionCounts_def createEmptyReactionCounts_def
        count_of_def reactionKeys_def)

lemma scenario_posts_ok: "posts_ok scenario_app"
  by (simp add: posts_ok_def scenario_app_def empty_app_def normalizePost_scenario post_ok_def
        normal_rb_def accounted_def kind_count_def count_of_def reactionKeys_def)

lemma scenario_store_ok: "store_ok scenario_app"
  by (simp add: store_ok_def scenario_app_def empty_app_def scenario_doc_ok)

lemma scenario_run:
  "posts (reactionRun [(''u1'', Remote_ok, ''p1'', ''love'')] scenario_app) =
     [(normalizePost ''p1'' scenario_doc)\<lparr>
        reacted_by := [(''u2'', ''love''), (''u3'', ''thumbs_up'')],
        reactions_count := [(''annoyed'', 0), (''love'', 1), (''surprised'', 0), (''thumbs_up'', 1), (''laugh'', 0)],
        engagement_count := 2, steeze_score := 1 / 5 \<rparr>]"
  by code_simp

text \<open>
  The scenario of the specification: counts \<open>{love: 2, thumbs_up: 1}\<close>, users \<open>u1\<close> and
  \<open>u2\<close> on love, \<open>u3\<close> on thumbs-up; \<open>u1\<close> toggles love.
\<close>

theorem reaction_accounting_preserved_witness:
  "users_once scenario_app \<and> posts_ok scenario_app \<and> store_ok scenario_app
   \<and> d_reactions_count scenario_doc \<noteq> None \<and> d_reacted_by scenario_doc \<noteq> None
   \<and> doc_ok scenario_doc
   \<and> users_once (reactionRun [(''u1'', Remote_ok, ''p1'', ''love'')] scenario_app)
   \<and> posts_ok (reactionRun [(''u1'', Remote_ok, ''p1'', ''love'')] scenario_app)
   \<and> store_ok (reactionRun [(''u1'', Remote_ok, ''p1'', ''love'')] scenario_app)
   \<and> post_ok (normalizePost ''p1'' scenario_doc)
   \<and> map reacted_by (posts (reactionRun [(''u1'', Remote_ok, ''p1'', ''love'')] scenario_app))
       = [[(''u2'', ''love''), (''u3'', ''thumbs_up'')]]
   \<and> map (\<lambda>p. computeReactionTotal (reactions_count p))
         (posts (reactionRun [(''u1'', Remote_ok, ''p1'', ''love'')] scenario_app)) = [2]"
proof -
  have c: "d_reactions_count scenario_doc \<noteq> None \<and> d_reacted_by scenario_doc \<noteq> None"
    by (simp add: scenario_doc_def)
  have u: "users_once scenario_app"
    using scenario_posts_ok by (simp add: users_once_def posts_ok_def post_ok_def list_all_iff)
  have r: "map reacted_by (posts (reactionRun [(''u1'', Remote_ok, ''p1'', ''love'')] scenario_app))
       = [[(''u2'', ''love''), (''u3'', ''thumbs_up'')]]"
    unfolding scenario_run by simp
  have len: "map (\<lambda>p. int (length (reacted_by p)))
         (posts (reactionRun [(''u1'', Remote_ok, ''p1'', ''love'')] scenario_app)) = [2]"
    unfolding scenario_run by simp
  note main = reaction_accounting_preserved[of "''p1''" scenario_doc scenario_app
      "[(''u1'', Remote_ok, ''p1'', ''love'')]"]
  from main u scenario_posts_ok scenario_store_ok c scenario_doc_ok
  have m: "users_once (reactionRun [(''u1'', Remote_ok, ''p1'', ''love'')] scenario_app)
     \<and> posts_ok (reactionRun [(''u1'', Remote_ok, ''p1'', ''love'')] scenario_app)
     \<and> store_ok (reactionRun [(''u1'', Remote_ok, ''p1'', ''love'')] scenario_app)
     \<and> post_ok (normalizePost ''p1'' scenario_doc)"
    by blast
  from main scenario_posts_ok scenario_store_ok
  have all: "\<forall>p \<in> set (posts (reactionRun [(''u1'', Remote_ok, ''p1'', ''love'')] scenario_app)).
              computeReactionTotal (reactions_count p) = int (length (reacted_by p))"
    by blast
  have tot: "map (\<lambda>p. computeReactionTotal (reactions_count p))
         (posts (reactionRun [(''u1'', Remote_ok, ''p1'', ''love'')] scenario_app))
       = map (\<lambda>p. int (length (reacted_by p)))
         (posts (reactionRun [(''u1'', Remote_ok, ''p1'', ''love'')] scenario_app))"
    using all by (intro map_cong) auto
  have t2: "map (\<lambda>p. computeReactionTotal (reactions_count p))
         (posts (reactionRun [(''u1'', Remote_ok, ''p1'', ''love'')] scenario_app)) = [2]"
    using tot len by (simp only:)
  show ?thesis
    using m u c scenario_doc_ok scenario_posts_ok scenario_store_ok r t2 by blast
qed

lemma update_keys_present:
  "k \<in> set (map fst al) \<Longrightarrow> map fst (AList.update k v al) = map fst al"
  by (simp add: update_keys)

lemma normalize_counts_id:
  "map fst c = reactionKeys \<Longrightarrow> normalizeReactionCounts (Some c) = c"
  by (simp add: normalizeReactionCounts_Some rebuild_from_keys distinct_reactionKeys)

lemma map_of_count_of:
  "map fst c = reactionKeys \<Longrightarrow> k \<in> set reactionKeys \<Longrightarrow> map_of c k = Some (count_of c k)"
proof -
  assume a: "map fst c = reactionKeys" "k \<in> set reactionKeys"
  then have "k \<in> fst ` set c" by (metis set_map)
  then obtain v where "map_of c k = Some v" by (metis domD dom_map_of_conv_image_fst)
  then show ?thesis by (simp add: count_of_def)
qed

lemma toggled_counts_keys:
  assumes "map fst c = reactionKeys" "key \<in> set reactionKeys"
    "\<forall>e \<in> set rb. snd e \<in> set reactionKeys"
  shows "map fst (toggled_counts uid key rb c) = reactionKeys"
proof (cases "map_of rb uid")
  case None
  then show ?thesis using assms by (simp add: toggled_counts_def update_keys_present)
next
  case (Some cur)
  then have "(uid, cur) \<in> set rb" by (rule map_of_SomeD)
  then have "cur \<in> set reactionKeys" using assms(3) by auto
  then show ?thesis using Some assms by (simp add: toggled_counts_def update_keys_present Let_def)
qed

lemma toggled_twice:
  assumes n: "normal_rb rb" and a: "accounted rb c" and k: "map fst c = reactionKeys"
    and key: "key \<in> set reactionKeys"
    and own: "map_of rb uid = None \<or> map_of rb uid = Some key"
  shows "map_of (toggled_rb uid key (toggled_rb uid key rb)) = map_of rb"
    and "toggled_counts uid key (toggled_rb uid key rb) (toggled_counts uid key rb c) = c"
proof -
  have mk: "map_of c key = Some (count_of c key)" using k key by (rule map_of_count_of)
  have nonneg: "0 \<le> count_of c key" using a key by (simp add: accounted_def kind_count_def)
  from own show "map_of (toggled_rb uid key (toggled_rb uid key rb)) = map_of rb"
    by (auto simp: toggled_rb_def update_conv' delete_conv' fun_eq_iff)
  from own show "toggled_counts uid key (toggled_rb uid key rb) (toggled_counts uid key rb c) = c"
  proof
    assume none: "map_of rb uid = None"
    then show ?thesis using nonneg mk
      by (simp add: toggled_rb_def toggled_counts_def update_conv' count_of_update update_triv)
  next
    assume some: "map_of rb uid = Some key"
    have pos: "0 < count_of c key" using kind_count_pos[OF some] a key by (simp add: accounted_def)
    show ?thesis using some pos mk
      by (simp add: toggled_rb_def toggled_counts_def delete_conv' count_of_update update_triv)
  qed
qed

text \<open>
  Claim C2, as the code has it. For an accounted post with normalised counts and an
  engagement total equal to the sum of its counts, and a user who holds either no
  reaction or the very kind toggled, the optimistic delta applied twice with that kind
  gives back the same user-to-kind mapping, the same counts and the same engagement
  total. (The entry of a user who removes and re-adds moves to the end of the object;
  the mapping is the same.)
\<close>

theorem toggle_twice_identity:
  assumes "post_ok target"
    and "map fst (reactions_count target) = reactionKeys"
    and "engagement_count target = computeReactionTotal (reactions_count target)"
    and "reactionKey \<in> set reactionKeys" and "uid \<noteq> []"
    and "map_of (reacted_by target) uid = None \<or> map_of (reacted_by target) uid = Some reactionKey"
  shows "let once = write_reaction (reactionNext uid reactionKey target) target;
             twice = write_reaction (reactionNext uid reactionKey once) once
         in map_of (reacted_by twice) = map_of (reacted_by target)
          \<and> reactions_count twice = reactions_count target
          \<and> engagement_count twice = engagement_count target"
proof -
  let ?rb = "reacted_by target" and ?c = "reactions_count target"
  define once where "once = write_reaction (reactionNext uid reactionKey target) target"
  have n: "normal_rb ?rb" and a: "accounted ?rb ?c" using assms(1) by (simp_all add: post_ok_def)
  have valid: "\<forall>e \<in> set ?rb. snd e \<in> set reactionKeys" using n by (simp add: normal_rb_def)
  have rb1: "reacted_by once = toggled_rb uid reactionKey ?rb"
    and c1: "reactions_count once = toggled_counts uid reactionKey ?rb ?c"
    by (simp_all add: once_def write_reaction_def reactionNext_toggled[OF n] Let_def
          normalize_counts_id[OF assms(2)])
  have n1: "normal_rb (reacted_by once)" unfolding rb1 by (rule toggled_rb_normal[OF n assms(5,4)])
  have k1: "map fst (reactions_count once) = reactionKeys"
    unfolding c1 by (rule toggled_counts_keys[OF assms(2,4) valid])
  have rb2: "rf_reacted_by (reactionNext uid reactionKey once)
               = toggled_rb uid reactionKey (toggled_rb uid reactionKey ?rb)"
    and c2: "rf_reactions_count (reactionNext uid reactionKey once)
               = toggled_counts uid reactionKey (toggled_rb uid reactionKey ?rb)
                   (toggled_counts uid reactionKey ?rb ?c)"
    and e2: "rf_engagement_count (reactionNext uid reactionKey once)
               = computeReactionTotal (toggled_counts uid reactionKey (toggled_rb uid reactionKey ?rb)
                   (toggled_counts uid reactionKey ?rb ?c))"
    using normalize_counts_id[OF k1]
    by (simp_all add: reactionNext_toggled[OF n1] Let_def rb1 c1)
  show ?thesis
    unfolding Let_def once_def[symmetric]
    using toggled_twice[OF n a assms(2,4,6)] assms(3)
    by (simp add: write_reaction_def rb2 c2 e2)
qed

text \<open>
  User \<open>u1\<close> holds love in the scenario post and toggles love twice.
\<close>

theorem toggle_twice_identity_witness:
  "post_ok (normalizePost ''p1'' scenario_doc)
   \<and> map fst (reactions_count (normalizePost ''p1'' scenario_doc)) = reactionKeys
   \<and> engagement_count (normalizePost ''p1'' scenario_doc)
       = computeReactionTotal (reactions_count (normalizePost ''p1'' scenario_doc))
   \<and> ''love'' \<in> set reactionKeys \<and> ''u1'' \<noteq> []
   \<and> map_of (reacted_by (normalizePost ''p1'' scenario_doc)) ''u1'' = Some ''love''
   \<and> (let once = write_reaction (reactionNext ''u1'' ''love'' (normalizePost ''p1'' scenario_doc))
                    (normalizePost ''p1'' scenario_doc);
           twice = write_reaction (reactionNext ''u1'' ''love'' once) once
       in map_of (reacted_by twice) = map_of (reacted_by (normalizePost ''p1'' scenario_doc))
        \<and> reactions_count twice = reactions_count (normalizePost ''p1'' scenario_doc)
        \<and> engagement_count twice = engagement_count (normalizePost ''p1'' scenario_doc))"
proof -
  have h1: "post_ok (normalizePost ''p1'' scenario_doc)"
    using scenario_posts_ok by (simp add: posts_ok_def scenario_app_def empty_app_def)
  have h2: "map fst (reactions_count (normalizePost ''p1'' scenario_doc)) = reactionKeys"
    by (simp add: normalizePost_scenario reactionKeys_def)
  have h3: "engagement_count (normalizePost ''p1'' scenario_doc)
       = computeReactionTotal (reactions_count (normalizePost ''p1'' scenario_doc))"
    by code_simp
  have h4: "''love'' \<in> set reactionKeys" by (simp add: reactionKeys_def)
  have h5: "''u1'' \<noteq> []" by simp
  have h6: "map_of (reacted_by (normalizePost ''p1'' scenario_doc)) ''u1'' = Some ''love''"
    by (simp add: normalizePost_scenario)
  from toggle_twice_identity[OF h1 h2 h3 h4 h5 disjI2[OF h6]] h1 h2 h3 h4 h5 h6
  show ?thesis by blast
qed

text \<open>
  A user who holds another kind: \<open>u1\<close> holds love and toggles thumbs-up twice. The first
  toggle replaces love, the second removes the reaction, so \<open>u1\<close> ends with none and
  love has lost one count.
\<close>

theorem toggle_twice_other_kind_counterexample:
  "post_ok (normalizePost ''p1'' scenario_doc)
   \<and> map_of (reacted_by (normalizePost ''p1'' scenario_doc)) ''u1'' = Some ''love''
   \<and> count_of (reactions_count (normalizePost ''p1'' scenario_doc)) ''love'' = 2
   \<and> engagement_count (normalizePost ''p1'' scenario_doc) = 3
   \<and> (let once = write_reaction (reactionNext ''u1'' ''thumbs_up'' (normalizePost ''p1'' scenario_doc))
                    (normalizePost ''p1'' scenario_doc);
           twice = write_reaction (reactionNext ''u1'' ''thumbs_up'' once) once
       in map_of (reacted_by twice) ''u1'' = None
        \<and> count_of (reactions_count twice) ''love'' = 1
        \<and> engagement_count twice = 2)"
proof -
  have h1: "post_ok (normalizePost ''p1'' scenario_doc)"
    using scenario_posts_ok by (simp add: posts_ok_def scenario_app_def empty_app_def)
  have rest: "map_of (reacted_by (normalizePost ''p1'' scenario_doc)) ''u1'' = Some ''love''
   \<and> count_of (reactions_count (normalizePost ''p1'' scenario_doc)) ''love'' = 2
   \<and> engagement_count (normalizePost ''p1'' scenario_doc) = 3
   \<and> (let once = write_reaction (reactionNext ''u1'' ''thumbs_up'' (normalizePost ''p1'' scenario_doc))
                    (normalizePost ''p1'' scenario_doc);
           twice = write_reaction (reactionNext ''u1'' ''thumbs_up'' once) once
       in map_of (reacted_by twice) ''u1'' = None
        \<and> count_of (reactions_count twice) ''love'' = 1
        \<and> engagement_count twice = 2)"
    by code_simp
  from h1 rest show ?thesis by blast
qed

lemma find_distinct_unique:
  "distinct (map post_id ps) \<Longrightarrow> find (\<lambda>p. post_id p = postId) ps = Some t \<Longrightarrow>
   p \<in> set ps \<Longrightarrow> post_id p = postId \<Longrightarrow> p = t"
  by (induction ps) (auto split: if_splits dest: find_Some_iff[THEN iffD1])

lemma find_in_set: "find P ps = Some t \<Longrightarrow> t \<in> set ps \<and> P t"
  by (induction ps) (auto split: if_splits)

lemma patchPost_id:
  "(\<And>p. p \<in> set ps \<Longrightarrow> post_id p = postId \<Longrightarrow> f p = p) \<Longrightarrow> patchPost postId f ps = ps"
  by (induction ps) (auto simp: patchPost_def)

lemma patchPost_twice:
  "(\<And>p. post_id (g p) = post_id p) \<Longrightarrow>
   patchPost postId f (patchPost postId g ps) = patchPost postId (\<lambda>p. f (g p)) ps"
  by (induction ps) (auto simp: patchPost_def)

lemma rollback_restores:
  assumes "normal_rb (reacted_by t)" "map fst (reactions_count t) = reactionKeys"
    "engagement_count t = 0 \<longrightarrow> computeReactionTotal (reactions_count t) = 0"
    "steeze_score t = 0 \<longrightarrow> computeSteezeScore (computeReactionTotal (reactions_count t)) = 0"
  shows "write_reaction (reactionRollback t) (write_reaction f t) = t"
  using assms
  by (simp add: write_reaction_def reactionRollback_def Let_def normalizeReactedBy_normal
        normalize_counts_id int_or_def rat_or_def)

text \<open>
  Claim C3, as the code has it. In a feed with distinct identifiers, when the target's
  reacted-by map and counts are in normal form and its stored engagement total and
  score are non-zero or agree with the values recomputed from the counts, a reaction
  whose transaction throws leaves the whole application state as it was.
\<close>

theorem reaction_rollback_exact:
  assumes "remoteEnabled st" and "distinct (map post_id (posts st))"
    and "\<forall>p \<in> set (posts st). post_id p = postId \<longrightarrow>
           normal_rb (reacted_by p) \<and> map fst (reactions_count p) = reactionKeys
         \<and> (engagement_count p = 0 \<longrightarrow> computeReactionTotal (reactions_count p) = 0)
         \<and> (steeze_score p = 0 \<longrightarrow> computeSteezeScore (computeReactionTotal (reactions_count p)) = 0)"
  shows "reactToPost Txn_throws postId reactionKey st = st"
proof (cases "find (\<lambda>p. post_id p = postId) (posts st)")
  case None
  then show ?thesis by (simp add: reactToPost_def)
next
  case (Some target)
  have tin: "target \<in> set (posts st)" "post_id target = postId"
    using find_in_set[OF Some] by simp_all
  have uniq: "\<And>p. p \<in> set (posts st) \<Longrightarrow> post_id p = postId \<Longrightarrow> p = target"
    using find_distinct_unique[OF assms(2) Some] by blast
  have restore: "write_reaction (reactionRollback target) (write_reaction f target) = target" for f
    by (rule rollback_restores) (use assms(3) tin in auto)
  have "patchPost postId (write_reaction (reactionRollback target))
          (patchPost postId (write_reaction f) (posts st)) = posts st" for f
  proof -
    have "patchPost postId (write_reaction (reactionRollback target))
            (patchPost postId (write_reaction f) (posts st))
          = patchPost postId (\<lambda>p. write_reaction (reactionRollback target) (write_reaction f p)) (posts st)"
      by (rule patchPost_twice) (simp add: write_reaction_def)
    also have "\<dots> = posts st"
      by (rule patchPost_id) (use uniq restore in auto)
    finally show ?thesis .
  qed
  then show ?thesis
    using Some assms(1)
    by (simp add: reactToPost_def Let_def insert_Diff_single)
qed

lemma settled_post_facts:
  "normal_rb (reacted_by (normalizePost ''p1'' settled_doc))
   \<and> map fst (reactions_count (normalizePost ''p1'' settled_doc)) = reactionKeys
   \<and> engagement_count (normalizePost ''p1'' settled_doc) = 3
   \<and> steeze_score (normalizePost ''p1'' settled_doc) = 3 / 10"
  by code_simp

text \<open>
  A post whose stored score matches its three reactions; the optimistic step does change
  it (the engagement total becomes 4), the failed remote step restores it.
\<close>

theorem reaction_rollback_exact_witness:
  "remoteEnabled settled_app \<and> distinct (map post_id (posts settled_app))
   \<and> posts settled_app = [normalizePost ''p1'' settled_doc]
   \<and> normal_rb (reacted_by (normalizePost ''p1'' settled_doc))
   \<and> map fst (reactions_count (normalizePost ''p1'' settled_doc)) = reactionKeys
   \<and> engagement_count (normalizePost ''p1'' settled_doc) = 3
   \<and> steeze_score (normalizePost ''p1'' settled_doc) = 3 / 10
   \<and> map engagement_count (posts (reactToPost Remote_ok ''p1'' ''laugh'' settled_app)) = [4]
   \<and> reactToPost Txn_throws ''p1'' ''laugh'' settled_app = settled_app"
proof -
  have h1: "remoteEnabled settled_app" by (simp add: settled_app_def empty_app_def)
  have ps: "posts settled_app = [normalizePost ''p1'' settled_doc]"
    by (simp add: settled_app_def empty_app_def)
  have h2: "distinct (map post_id (posts settled_app))" by (simp add: ps)
  have h3: "\<forall>p \<in> set (posts settled_app). post_id p = ''p1'' \<longrightarrow>
           normal_rb (reacted_by p) \<and> map fst (reactions_count p) = reactionKeys
         \<and> (engagement_count p = 0 \<longrightarrow> computeReactionTotal (reactions_count p) = 0)
         \<and> (steeze_score p = 0 \<longrightarrow> computeSteezeScore (computeReactionTotal (reactions_count p)) = 0)"
    using settled_post_facts by (simp add: ps)
  have opt: "map engagement_count (posts (reactToPost Remote_ok ''p1'' ''laugh'' settled_app)) = [4]"
    by code_simp
  from reaction_rollback_exact[OF h1 h2 h3, of "''laugh''"] h1 h2 ps settled_post_facts opt
  show ?thesis by blast
qed

text \<open>
  The catch block writes \<open>target.steeze_score || computeSteezeScore(...)\<close>: a post with
  three reactions whose document stores no score has score 0 before the failed
  mutation and 3/10 after it.
\<close>

theorem reaction_rollback_score_counterexample:
  "map steeze_score (posts (scenario_app\<lparr> currentUserId := ''u4'' \<rparr>)) = [0]
   \<and> map steeze_score
        (posts (reactToPost Txn_throws ''p1'' ''laugh'' (scenario_app\<lparr> currentUserId := ''u4'' \<rparr>)))
       = [3 / 10]"
  by code_simp

text \<open>
  Claim C10. To a viewer who is not an admin the visible-posts selection returns only
  posts whose moderation status is not hidden, and exactly the posts of the feed that
  are not hidden, in feed order; to an admin it returns the whole feed.
\<close>

theorem visiblePosts_hides_hidden:
  "(\<not> isAdmin st \<longrightarrow>
      (\<forall>p \<in> set (visiblePosts st). moderated_status p \<noteq> ''hidden'')
      \<and> visiblePosts st = filter (\<lambda>p. moderated_status p \<noteq> ''hidden'') (posts st))
   \<and> (isAdmin st \<longrightarrow> visiblePosts st = posts st)"
proof -
  have "str_or (Some s) ''active'' \<noteq> ''hidden'' \<longleftrightarrow> s \<noteq> ''hidden''" for s
    by (simp add: str_or_def)
  then show ?thesis by (auto simp: visiblePosts_def)
qed

theorem visiblePosts_hides_hidden_witness:
  "\<not> isAdmin hidden_app \<and> isAdmin (hidden_app\<lparr> isAdmin := True \<rparr>)
   \<and> map moderated_status (posts hidden_app) = [''active'', ''hidden'']
   \<and> map post_id (visiblePosts hidden_app) = [''p1'']
   \<and> map post_id (visiblePosts (hidden_app\<lparr> isAdmin := True \<rparr>)) = [''p1'', ''p2'']"
proof -
  have a: "\<not> isAdmin hidden_app" by (simp add: hidden_app_def empty_app_def)
  have b: "isAdmin (hidden_app\<lparr> isAdmin := True \<rparr>)" by simp
  have m: "map moderated_status (posts hidden_app) = [''active'', ''hidden'']" by code_simp
  have i: "map post_id (posts hidden_app) = [''p1'', ''p2'']" by code_simp
  have f: "map post_id (filter (\<lambda>p. moderated_status p \<noteq> ''hidden'') (posts hidden_app)) = [''p1'']"
    by code_simp
  from visiblePosts_hides_hidden[of hidden_app] a
  have e1: "visiblePosts hidden_app = filter (\<lambda>p. moderated_status p \<noteq> ''hidden'') (posts hidden_app)"
    by blast
  have v1: "map post_id (visiblePosts hidden_app) = [''p1'']"
    unfolding e1 by (rule f)
  from visiblePosts_hides_hidden[of "hidden_app\<lparr> isAdmin := True \<rparr>"] b
  have e2: "visiblePosts (hidden_app\<lparr> isAdmin := True \<rparr>) = posts (hidden_app\<lparr> isAdmin := True \<rparr>)"
    by blast
  have v2: "map post_id (visiblePosts (hidden_app\<lparr> isAdmin := True \<rparr>)) = [''p1'', ''p2'']"
    unfolding e2 using i by simp
  from a b m v1 v2 show ?thesis by blast
qed

text \<open>
  Claim C8. For a fixed feed, the visible window before \<open>loadMoreFeed\<close> is a prefix of
  the visible window after it; while the window does not yet cover the filtered list
  the window after the call is strictly longer.
\<close>

theorem loadMore_extends_window:
  "prefix (visibleFeedPosts st) (visibleFeedPosts (loadMoreFeed st))
   \<and> (feedVisibleCount st < length (moodFilteredHomePosts st)
        \<longrightarrow> length (visibleFeedPosts st) < length (visibleFeedPosts (loadMoreFeed st)))"
proof -
  let ?xs = "moodFilteredHomePosts st"
  have same: "moodFilteredHomePosts (loadMoreFeed st) = ?xs"
    by (simp add: loadMoreFeed_def moodFilteredHomePosts_def homePosts_def visiblePosts_def Let_def)
  have cnt: "feedVisibleCount (loadMoreFeed st) = min (length ?xs) (feedVisibleCount st + feedPageSize)"
    by (simp add: loadMoreFeed_def Let_def)
  have "take (feedVisibleCount st) ?xs
        = take (feedVisibleCount st) (take (min (length ?xs) (feedVisibleCount st + feedPageSize)) ?xs)"
    by (simp add: min_def)
  then have "prefix (take (feedVisibleCount st) ?xs)
                    (take (min (length ?xs) (feedVisibleCount st + feedPageSize)) ?xs)"
    by (metis take_is_prefix)
  then show ?thesis
    by (auto simp: visibleFeedPosts_def same cnt feedPageSize_def)
qed

theorem loadMore_extends_window_witness:
  "feedVisibleCount long_feed_app < length (moodFilteredHomePosts long_feed_app)
   \<and> length (visibleFeedPosts long_feed_app) = 12
   \<and> length (visibleFeedPosts (loadMoreFeed long_feed_app)) = 14
   \<and> prefix (visibleFeedPosts long_feed_app) (visibleFeedPosts (loadMoreFeed long_feed_app))
   \<and> length (visibleFeedPosts long_feed_app) < length (visibleFeedPosts (loadMoreFeed long_feed_app))"
proof -
  have h: "feedVisibleCount long_feed_app < length (moodFilteredHomePosts long_feed_app)"
    by code_simp
  have a: "length (visibleFeedPosts long_feed_app) = 12" by code_simp
  have b: "length (visibleFeedPosts (loadMoreFeed long_feed_app)) = 14" by code_simp
  from loadMore_extends_window[of long_feed_app] h a b show ?thesis by blast
qed

lemma find_patchPost:
  "(\<And>p. post_id (f p) = post_id p) \<Longrightarrow> find (\<lambda>p. post_id p = postId) ps = Some t \<Longrightarrow>
   find (\<lambda>p. post_id p = postId) (patchPost postId f ps) = Some (f t)"
  by (induction ps) (auto simp: patchPost_def split: if_splits)

text \<open>
  Claim C7. When the guards of \<open>addReflectionComment\<close> pass and the transaction throws,
  the feed is the optimistically patched one, the same as after a successful remote
  step: the target carries the new comment at the end of its list and a count one
  higher, and the store is untouched.
\<close>

theorem comment_failure_keeps_comment:
  assumes "find (\<lambda>p. post_id p = postId) (posts st) = Some target"
    and "media_type target \<noteq> ''text''" and "assertCanInteract st"
    and "postId \<notin> pendingComments st"
    and "trim (str_or (reflectionCommentDrafts st postId) []) \<noteq> []"
    and "currentUserId st \<noteq> []"
  shows "let nextComment = buildComment nowMs (trim (str_or (reflectionCommentDrafts st postId) [])) st;
             after = addReflectionComment Txn_throws nowMs postId st
         in posts after = patchPost postId (appendComment nextComment) (posts st)
          \<and> posts after = posts (addReflectionComment Remote_ok nowMs postId st)
          \<and> find (\<lambda>p. post_id p = postId) (posts after)
              = Some (target\<lparr> comments := comments target @ [nextComment],
                               comments_count := comments_count target + 1 \<rparr>)
          \<and> store after = store st"
proof -
  define c where "c = buildComment nowMs (trim (str_or (reflectionCommentDrafts st postId) [])) st"
  have p1: "posts (addReflectionComment Txn_throws nowMs postId st)
            = patchPost postId (appendComment c) (posts st)"
    using assms by (simp add: addReflectionComment_def Let_def c_def)
  have p2: "posts (addReflectionComment Remote_ok nowMs postId st)
            = patchPost postId (appendComment c) (posts st)"
    using assms by (simp add: addReflectionComment_def Let_def c_def)
  have s: "store (addReflectionComment Txn_throws nowMs postId st) = store st"
    using assms by (simp add: addReflectionComment_def Let_def)
  have "find (\<lambda>p. post_id p = postId) (patchPost postId (appendComment c) (posts st))
        = Some (appendComment c target)"
    by (rule find_patchPost) (simp_all add: appendComment_def assms(1))
  then have f: "find (\<lambda>p. post_id p = postId) (posts (addReflectionComment Txn_throws nowMs postId st))
        = Some (target\<lparr> comments := comments target @ [c],
                         comments_count := comments_count target + 1 \<rparr>)"
    by (simp add: p1 appendComment_def int_or_def)
  show ?thesis
    unfolding Let_def c_def[symmetric] using p1 p2 f s by simp
qed

lemma comment_app_after:
  "map (map c_text \<circ> comments) (posts (addReflectionComment Txn_throws 1000 ''p1'' comment_app))
     = [[''nice fit'']]
   \<and> map comments_count (posts (addReflectionComment Txn_throws 1000 ''p1'' comment_app)) = [1]
   \<and> map (map c_id \<circ> comments) (posts (addReflectionComment Txn_throws 1000 ''p1'' comment_app))
     = [[''u4-1000'']]"
  by code_simp

theorem comment_failure_keeps_comment_witness:
  "find (\<lambda>p. post_id p = ''p1'') (posts comment_app) = Some (normalizePost ''p1'' scenario_doc)
   \<and> media_type (normalizePost ''p1'' scenario_doc) \<noteq> ''text'' \<and> assertCanInteract comment_app
   \<and> ''p1'' \<notin> pendingComments comment_app
   \<and> trim (str_or (reflectionCommentDrafts comment_app ''p1'') []) \<noteq> []
   \<and> currentUserId comment_app \<noteq> []
   \<and> map (map c_text \<circ> comments) (posts (addReflectionComment Txn_throws 1000 ''p1'' comment_app))
       = [[''nice fit'']]
   \<and> map comments_count (posts (addReflectionComment Txn_throws 1000 ''p1'' comment_app)) = [1]
   \<and> posts (addReflectionComment Txn_throws 1000 ''p1'' comment_app)
       = posts (addReflectionComment Remote_ok 1000 ''p1'' comment_app)
   \<and> store (addReflectionComment Txn_throws 1000 ''p1'' comment_app) = store comment_app"
proof -
  have h1: "find (\<lambda>p. post_id p = ''p1'') (posts comment_app) = Some (normalizePost ''p1'' scenario_doc)"
    by (simp add: comment_app_def empty_app_def normalizePost_scenario)
  have h2: "media_type (normalizePost ''p1'' scenario_doc) \<noteq> ''text''"
    by (simp add: normalizePost_scenario)
  have h3: "assertCanInteract comment_app"
    by (simp add: assertCanInteract_def comment_app_def empty_app_def)
  have h4: "''p1'' \<notin> pendingComments comment_app" by (simp add: comment_app_def empty_app_def)
  have h5: "trim (str_or (reflectionCommentDrafts comment_app ''p1'') []) \<noteq> []"
    by (simp add: comment_app_def empty_app_def str_or_def trim_def is_space_def)
  have h6: "currentUserId comment_app \<noteq> []" by (simp add: comment_app_def empty_app_def)
  note main = comment_failure_keeps_comment[OF h1 h2 h3 h4 h5 h6, of 1000, unfolded Let_def]
  from main have e: "posts (addReflectionComment Txn_throws 1000 ''p1'' comment_app)
       = posts (addReflectionComment Remote_ok 1000 ''p1'' comment_app)"
    and s: "store (addReflectionComment Txn_throws 1000 ''p1'' comment_app) = store comment_app"
    by blast+
  from h1 h2 h3 h4 h5 h6 e s comment_app_after show ?thesis by blast
qed

lemma patchPost_other:
  "postId \<notin> post_id ` set ps \<Longrightarrow> patchPost postId f ps = ps"
  by (rule patchPost_id) auto

lemma patchPost_Cons:
  "patchPost postId f (p # ps) = (if post_id p = postId then f p else p) # patchPost postId f ps"
  by (simp add: patchPost_def)

lemma filter_other:
  "postId \<notin> post_id ` set ps \<Longrightarrow> filter (\<lambda>p. post_id p \<noteq> postId) ps = ps"
  by (induction ps) auto

lemma optimisticPost_id: "post_id (optimisticPost nowMs dr st) = ''local-post-'' @ string_of_int nowMs"
  by (simp add: optimisticPost_def)

text \<open>
  Claim C9, as the code has it. For a draft that passes the guards of \<open>createPost\<close> and a
  temporary identifier not yet in the feed: when a file is selected and its upload
  throws, the optimistic post is removed and the feed is as before; when the publish
  write throws, the optimistic post stays at the front of the feed with delivery state
  \<open>failed\<close>, for a post without a file as well as for one whose upload completed.
\<close>

theorem createPost_failure_outcomes:
  assumes "currentUserId st \<noteq> []" and "\<not> isPublishing st" and "assertCanInteract st"
    and "trim (draftCaption dr) \<noteq> []"
    and "postMode dr = ''reflection'' \<longrightarrow> selectedFile dr \<noteq> None"
    and "''local-post-'' @ string_of_int nowMs \<notin> post_id ` set (posts st)"
  shows "(selectedFile dr \<noteq> None \<longrightarrow>
            posts (createPost Upload_throws publish nowMs dr st) = posts st)
       \<and> (remoteEnabled st \<and> selectedFile dr = None \<longrightarrow>
            posts (createPost upload AddDoc_throws nowMs dr st)
              = (optimisticPost nowMs dr st)\<lparr> delivery_status := Some ''failed'' \<rparr> # posts st)
       \<and> (remoteEnabled st \<and> selectedFile dr \<noteq> None \<longrightarrow>
            posts (createPost (Uploaded url publicId mediaType) AddDoc_throws nowMs dr st)
              = (optimisticPost nowMs dr st)\<lparr> image_url := url, media_type := mediaType,
                    thumbnail_url := [], public_id := publicId,
                    delivery_status := Some ''failed'' \<rparr> # posts st)"
proof -
  note other = patchPost_other[OF assms(6)] filter_other[OF assms(6)]
  have up: "posts (createPost Upload_throws publish nowMs dr st) = posts st"
    if "selectedFile dr \<noteq> None"
    using that assms(1-5) other
    by (auto simp: createPost_def Let_def uploadMedia_def optimisticPost_id)
  have tx: "posts (createPost upload AddDoc_throws nowMs dr st)
              = (optimisticPost nowMs dr st)\<lparr> delivery_status := Some ''failed'' \<rparr> # posts st"
    if "remoteEnabled st" "selectedFile dr = None"
    using that assms(1-5) other
    by (simp add: createPost_def Let_def patchPost_Cons optimisticPost_id)
  have med: "posts (createPost (Uploaded url publicId mediaType) AddDoc_throws nowMs dr st)
              = (optimisticPost nowMs dr st)\<lparr> image_url := url, media_type := mediaType,
                    thumbnail_url := [], public_id := publicId,
                    delivery_status := Some ''failed'' \<rparr> # posts st"
    if "remoteEnabled st" "selectedFile dr \<noteq> None"
  proof -
    from that(2) obtain f where f: "selectedFile dr = Some f" by auto
    show ?thesis
      using that(1) assms(1-5) other
      by (simp add: createPost_def Let_def uploadMedia_def patchPost_Cons optimisticPost_id f)
  qed
  from up tx med show ?thesis by blast
qed

lemma composer_guards:
  "currentUserId composer_app \<noteq> [] \<and> \<not> isPublishing composer_app \<and> assertCanInteract composer_app
   \<and> remoteEnabled composer_app \<and> posts composer_app = []"
  by (simp add: composer_app_def empty_app_def assertCanInteract_def)

theorem createPost_failure_outcomes_witness:
  "currentUserId composer_app \<noteq> [] \<and> \<not> isPublishing composer_app \<and> assertCanInteract composer_app
   \<and> remoteEnabled composer_app
   \<and> trim (draftCaption media_draft) \<noteq> [] \<and> selectedFile media_draft \<noteq> None
   \<and> trim (draftCaption text_draft) \<noteq> [] \<and> selectedFile text_draft = None
   \<and> postMode text_draft \<noteq> ''reflection''
   \<and> ''local-post-'' @ string_of_int 1000 \<notin> post_id ` set (posts composer_app)
   \<and> posts (createPost Upload_throws AddDoc_throws 1000 media_draft composer_app) = posts composer_app
   \<and> posts (createPost Upload_throws AddDoc_throws 1000 text_draft composer_app)
       = (optimisticPost 1000 text_draft composer_app)\<lparr> delivery_status := Some ''failed'' \<rparr>
         # posts composer_app
   \<and> posts (createPost (Uploaded ''https://cdn/x.png'' ''pid1'' ''image'') AddDoc_throws 1000
              media_draft composer_app)
       = (optimisticPost 1000 media_draft composer_app)\<lparr> image_url := ''https://cdn/x.png'',
            media_type := ''image'', thumbnail_url := [], public_id := ''pid1'',
            delivery_status := Some ''failed'' \<rparr> # posts composer_app"
proof -
  have g: "currentUserId composer_app \<noteq> []" "\<not> isPublishing composer_app"
    "assertCanInteract composer_app" "remoteEnabled composer_app"
    using composer_guards by blast+
  have m1: "trim (draftCaption media_draft) \<noteq> []" by code_simp
  have m2: "selectedFile media_draft \<noteq> None" by (simp add: media_draft_def)
  have m3: "postMode media_draft = ''reflection'' \<longrightarrow> selectedFile media_draft \<noteq> None"
    using m2 by simp
  have t1: "trim (draftCaption text_draft) \<noteq> []" by code_simp
  have t2: "selectedFile text_draft = None" by (simp add: text_draft_def)
  have t3: "postMode text_draft \<noteq> ''reflection''" by (simp add: text_draft_def)
  have t4: "postMode text_draft = ''reflection'' \<longrightarrow> selectedFile text_draft \<noteq> None"
    using t3 by simp
  have fr: "''local-post-'' @ string_of_int 1000 \<notin> post_id ` set (posts composer_app)"
    using composer_guards by simp
  note med = createPost_failure_outcomes[where publish = AddDoc_throws and upload = Upload_throws
      and url = "''https://cdn/x.png''" and publicId = "''pid1''" and mediaType = "''image''",
      OF g(1,2,3) m1 m3 fr]
  note tex = createPost_failure_outcomes[where publish = AddDoc_throws and upload = Upload_throws
      and url = "''https://cdn/x.png''" and publicId = "''pid1''" and mediaType = "''image''",
      OF g(1,2,3) t1 t4 fr]
  from med m2 g(4) have a: "posts (createPost Upload_throws AddDoc_throws 1000 media_draft composer_app)
      = posts composer_app"
    and c: "posts (createPost (Uploaded ''https://cdn/x.png'' ''pid1'' ''image'') AddDoc_throws 1000
              media_draft composer_app)
       = (optimisticPost 1000 media_draft composer_app)\<lparr> image_url := ''https://cdn/x.png'',
            media_type := ''image'', thumbnail_url := [], public_id := ''pid1'',
            delivery_status := Some ''failed'' \<rparr> # posts composer_app"
    by blast+
  from tex t2 g(4) have b: "posts (createPost Upload_throws AddDoc_throws 1000 text_draft composer_app)
       = (optimisticPost 1000 text_draft composer_app)\<lparr> delivery_status := Some ''failed'' \<rparr>
         # posts composer_app"
    by blast
  from g m1 m2 t1 t2 t3 fr a b c show ?thesis by blast
qed

text \<open>
  A post without a file whose publish write throws is not removed: it stays in the feed
  under its temporary identifier with delivery state \<open>failed\<close>. A post with a file whose
  upload throws is the one that is removed.
\<close>

theorem createPost_text_failure_counterexample:
  "selectedFile text_draft = None
   \<and> map post_id (posts (createPost Upload_throws AddDoc_throws 1000 text_draft composer_app))
       = [''local-post-1000'']
   \<and> map delivery_status (posts (createPost Upload_throws AddDoc_throws 1000 text_draft composer_app))
       = [Some ''failed'']
   \<and> map media_type (posts (createPost Upload_throws AddDoc_throws 1000 text_draft composer_app))
       = [''text'']
   \<and> selectedFile media_draft = Some ''photo.png''
   \<and> map post_id (posts (createPost Upload_throws AddDoc_throws 1000 media_draft composer_app)) = []"
  by code_simp

lemma foldl_concat_rows:
  "foldl (\<lambda>m rows. foldl f m rows) m xss = foldl f m (concat xss)"
  by (induction xss arbitrary: m) simp_all

lemma mergeBuckets_tagged:
  "mergeBuckets b = foldl (\<lambda>m (r, s). addToMerged m r s) [] (tagged b)"
  by (simp add: mergeBuckets_def tagged_def Let_def foldl_map foldl_concat_rows)

lemma addToMerged_lookup:
  "map_of (addToMerged m row src) k =
     (if k = post_id row then map_of (addToMerged m row src) (post_id row) else map_of m k)"
  by (simp add: addToMerged_def Let_def update_conv')

lemma addToMerged_distinct:
  "distinct (map fst m) \<Longrightarrow> distinct (map fst (addToMerged m row src))"
  by (simp add: addToMerged_def Let_def distinct_update)

lemma addToMerged_entry:
  assumes "map_of (addToMerged m row src) (post_id row) = Some e"
  shows "post_id e = post_id row"
    and "fromMine e \<longleftrightarrow> (case map_of m (post_id row) of None \<Rightarrow> False | Some prev \<Rightarrow> fromMine prev)
                        \<or> src = ''mine''"
    and "fromFollowing e \<longleftrightarrow> (case map_of m (post_id row) of None \<Rightarrow> False | Some prev \<Rightarrow> fromFollowing prev)
                        \<or> src = ''following''"
    and "fromCampus e \<longleftrightarrow> (case map_of m (post_id row) of None \<Rightarrow> False | Some prev \<Rightarrow> fromCampus prev)
                        \<or> src = ''campus''"
    and "fromGlobal e \<longleftrightarrow> (case map_of m (post_id row) of None \<Rightarrow> False | Some prev \<Rightarrow> fromGlobal prev)
                        \<or> src = ''global''"
    and "created_at e = created_at row
          \<or> (\<exists>prev. map_of m (post_id row) = Some prev \<and> created_at e = created_at prev)"
proof -
  have val: "Some e = map_of (addToMerged m row src) (post_id row)" using assms by simp
  show "post_id e = post_id row"
    using val by (cases "map_of m (post_id row)")
      (auto simp: addToMerged_def Let_def update_conv')
  show "fromMine e \<longleftrightarrow> (case map_of m (post_id row) of None \<Rightarrow> False | Some prev \<Rightarrow> fromMine prev)
                        \<or> src = ''mine''"
    using val by (cases "map_of m (post_id row)")
      (auto simp: addToMerged_def Let_def update_conv')
  show "fromFollowing e \<longleftrightarrow> (case map_of m (post_id row) of None \<Rightarrow> False | Some prev \<Rightarrow> fromFollowing prev)
                        \<or> src = ''following''"
    using val by (cases "map_of m (post_id row)")
      (auto simp: addToMerged_def Let_def update_conv')
  show "fromCampus e \<longleftrightarrow> (case map_of m (post_id row) of None \<Rightarrow> False | Some prev \<Rightarrow> fromCampus prev)
                        \<or> src = ''campus''"
    using val by (cases "map_of m (post_id row)")
      (auto simp: addToMerged_def Let_def update_conv')
  show "fromGlobal e \<longleftrightarrow> (case map_of m (post_id row) of None \<Rightarrow> False | Some prev \<Rightarrow> fromGlobal prev)
                        \<or> src = ''global''"
    using val by (cases "map_of m (post_id row)")
      (auto simp: addToMerged_def Let_def update_conv')
  show "created_at e = created_at row
          \<or> (\<exists>prev. map_of m (post_id row) = Some prev \<and> created_at e = created_at prev)"
    using val by (cases "map_of m (post_id row)"; cases "created_at row")
      (auto simp: addToMerged_def Let_def update_conv' spread_jsval_def)
qed

lemma has_source_snoc:
  "has_source (rs @ [(row, src)]) k s \<longleftrightarrow> has_source rs k s \<or> (post_id row = k \<and> src = s)"
  by (auto simp: has_source_def)

lemma merged_entry_other:
  "merged_entry rs k p \<Longrightarrow> k \<noteq> post_id row \<Longrightarrow> merged_entry (rs @ [(row, src)]) k p"
  by (auto simp: merged_entry_def has_source_snoc)

lemma merged_entry_new:
  assumes inv: "\<forall>p. map_of m (post_id row) = Some p \<longrightarrow> merged_entry rs (post_id row) p"
    and none: "map_of m (post_id row) = None \<longrightarrow> (\<forall>s. \<not> has_source rs (post_id row) s)"
    and e: "map_of (addToMerged m row src) (post_id row) = Some e"
  shows "merged_entry (rs @ [(row, src)]) (post_id row) e"
proof -
  note id = addToMerged_entry(1)[OF e] and fm = addToMerged_entry(2)[OF e]
    and ff = addToMerged_entry(3)[OF e] and fc = addToMerged_entry(4)[OF e]
    and fg = addToMerged_entry(5)[OF e] and cr = addToMerged_entry(6)[OF e]
  show ?thesis
  proof (cases "map_of m (post_id row)")
    case None
    then have no: "\<And>s. \<not> has_source rs (post_id row) s" using none by simp
    have c: "\<exists>r s. (r, s) \<in> set (rs @ [(row, src)]) \<and> post_id r = post_id row
                \<and> created_at r = created_at e"
      using cr None by auto
    show ?thesis using id fm ff fc fg c None
      by (simp add: merged_entry_def has_source_snoc no)
  next
    case (Some prev)
    then have p: "merged_entry rs (post_id row) prev" using inv by simp
    have c: "\<exists>r s. (r, s) \<in> set (rs @ [(row, src)]) \<and> post_id r = post_id row
                \<and> created_at r = created_at e"
    proof (cases "created_at e = created_at row")
      case True
      then show ?thesis by auto
    next
      case False
      then have "created_at e = created_at prev" using cr Some by auto
      then show ?thesis using p by (auto simp: merged_entry_def)
    qed
    show ?thesis using id fm ff fc fg p c Some
      by (simp add: merged_entry_def has_source_snoc)
  qed
qed

lemma addToMerged_present: "map_of (addToMerged m row src) (post_id row) \<noteq> None"
  by (simp add: addToMerged_def Let_def update_conv')

lemma merged_invariant:
  "distinct (map fst (foldl (\<lambda>m (r, s). addToMerged m r s) [] rs))
   \<and> (\<forall>k p. map_of (foldl (\<lambda>m (r, s). addToMerged m r s) [] rs) k = Some p \<longrightarrow> merged_entry rs k p)
   \<and> (\<forall>k. map_of (foldl (\<lambda>m (r, s). addToMerged m r s) [] rs) k = None
          \<longrightarrow> (\<forall>s. \<not> has_source rs k s))"
proof (induction rs rule: rev_induct)
  case Nil
  then show ?case by (simp add: has_source_def)
next
  case (snoc x rs)
  obtain row src where x: "x = (row, src)" by (cases x)
  let ?m = "foldl (\<lambda>m (r, s). addToMerged m r s) [] rs"
  have step: "foldl (\<lambda>m (r, s). addToMerged m r s) [] (rs @ [(row, src)]) = addToMerged ?m row src"
    by simp
  have d: "distinct (map fst (addToMerged ?m row src))"
    using snoc by (simp add: addToMerged_distinct)
  have e: "merged_entry (rs @ [(row, src)]) k p" if "map_of (addToMerged ?m row src) k = Some p" for k p
  proof (cases "k = post_id row")
    case True
    have "merged_entry (rs @ [(row, src)]) (post_id row) p"
      by (rule merged_entry_new[of ?m]) (use snoc that True in auto)
    then show ?thesis using True by simp
  next
    case False
    then have "map_of ?m k = Some p" using that addToMerged_lookup[of ?m row src k] by simp
    then show ?thesis using snoc False by (simp add: merged_entry_other)
  qed
  have n: "\<not> has_source (rs @ [(row, src)]) k s" if "map_of (addToMerged ?m row src) k = None" for k s
  proof -
    have ne: "k \<noteq> post_id row" using that addToMerged_present[of ?m row src] by auto
    then have "map_of ?m k = None" using that addToMerged_lookup[of ?m row src k] by simp
    then have "\<not> has_source rs k s" using snoc by simp
    then show ?thesis using ne by (simp add: has_source_snoc)
  qed
  show ?case unfolding x step using d e n by blast
qed

lemma has_source_tagged:
  "has_source (tagged b) k ''mine'' \<longleftrightarrow> k \<in> post_id ` set (mine b)"
  "has_source (tagged b) k ''following'' \<longleftrightarrow> k \<in> post_id ` set (concat (following b))"
  "has_source (tagged b) k ''campus'' \<longleftrightarrow> k \<in> post_id ` set (campus b)"
  "has_source (tagged b) k ''global'' \<longleftrightarrow> k \<in> post_id ` set (global b)"
  by (auto simp: has_source_def tagged_def)

lemma tagged_rows: "(r, s) \<in> set (tagged b) \<Longrightarrow> r \<in> set (allRows b)"
  by (auto simp: tagged_def allRows_def)

lemma mergeBuckets_distinct: "distinct (map fst (mergeBuckets b))"
  using merged_invariant[of "tagged b"] by (simp add: mergeBuckets_tagged)

lemma mergeBuckets_entry:
  assumes "(k, p) \<in> set (mergeBuckets b)"
  shows "post_id p = k"
    and "fromMine p \<longleftrightarrow> k \<in> post_id ` set (mine b)"
    and "fromFollowing p \<longleftrightarrow> k \<in> post_id ` set (concat (following b))"
    and "fromCampus p \<longleftrightarrow> k \<in> post_id ` set (campus b)"
    and "fromGlobal p \<longleftrightarrow> k \<in> post_id ` set (global b)"
    and "\<exists>r \<in> set (allRows b). post_id r = k \<and> created_at r = created_at p"
proof -
  have "map_of (mergeBuckets b) k = Some p"
    using assms mergeBuckets_distinct by simp
  then have m: "merged_entry (tagged b) k p"
    using merged_invariant[of "tagged b"] by (simp add: mergeBuckets_tagged)
  then show "post_id p = k"
    and "fromMine p \<longleftrightarrow> k \<in> post_id ` set (mine b)"
    and "fromFollowing p \<longleftrightarrow> k \<in> post_id ` set (concat (following b))"
    and "fromCampus p \<longleftrightarrow> k \<in> post_id ` set (campus b)"
    and "fromGlobal p \<longleftrightarrow> k \<in> post_id ` set (global b)"
    by (simp_all add: merged_entry_def has_source_tagged)
  from m obtain r s where "(r, s) \<in> set (tagged b)" "post_id r = k" "created_at r = created_at p"
    by (auto simp: merged_entry_def)
  then show "\<exists>r \<in> set (allRows b). post_id r = k \<and> created_at r = created_at p"
    using tagged_rows by blast
qed

lemma scorePost_fields:
  "post_id (scorePost n st tw aw p) = post_id p"
  "created_at (scorePost n st tw aw p) = created_at p"
  "sourceBoost (scorePost n st tw aw p) = sourceBoost p"
  "recencyScore n' (scorePost n st tw aw p) = recencyScore n' p"
  "engagementScore (scorePost n st tw aw p) = engagementScore p"
  "styleScore st' (scorePost n st tw aw p) = styleScore st' p"
  "interactionScore tw' (scorePost n st tw aw p) = interactionScore tw' p"
  "authorAffinity aw' (scorePost n st tw aw p) = authorAffinity aw' p"
  by (simp_all add: scorePost_def sourceBoost_def recencyScore_def engagementScore_def
        styleScore_def interactionScore_def authorAffinity_def)

lemma rankPosts_sorted_scored:
  "rankPosts nowMs styleTags uid b =
     sortByFeedScore (map (scorePost nowMs styleTags (fst (feedWeights uid b)) (snd (feedWeights uid b)))
                          (filter (inWindow nowMs) (map snd (mergeBuckets b))))"
  by (simp add: rankPosts_def feedWeights_def Let_def)

lemma rankPosts_mem:
  assumes "p \<in> set (rankPosts nowMs styleTags uid b)"
  obtains q where "(post_id q, q) \<in> set (mergeBuckets b)" and "inWindow nowMs q"
    and "p = scorePost nowMs styleTags (fst (feedWeights uid b)) (snd (feedWeights uid b)) q"
proof -
  from assms obtain e where e: "e \<in> set (mergeBuckets b)" "inWindow nowMs (snd e)"
    "p = scorePost nowMs styleTags (fst (feedWeights uid b)) (snd (feedWeights uid b)) (snd e)"
    by (auto simp: rankPosts_sorted_scored sortByFeedScore_def)
  have "post_id (snd e) = fst e" using mergeBuckets_entry(1)[of "fst e" "snd e" b] e(1) by simp
  then have "(post_id (snd e), snd e) \<in> set (mergeBuckets b)" using e(1) by simp
  then show ?thesis using e that by blast
qed

lemma rankPosts_score:
  assumes "p \<in> set (rankPosts nowMs styleTags uid b)"
  shows "feedScore p =
     Some ((if post_id p \<in> post_id ` set (mine b) then 120 else 0)
         + (if post_id p \<in> post_id ` set (concat (following b)) then 45 else 0)
         + (if post_id p \<in> post_id ` set (campus b) then 12 else 0)
         + (if post_id p \<in> post_id ` set (global b) then 6 else 0)
         + recencyScore nowMs p + engagementScore p + of_int (styleScore styleTags p)
         + of_int (interactionScore (fst (feedWeights uid b)) p)
         + of_int (authorAffinity (snd (feedWeights uid b)) p))"
proof -
  from assms obtain q where q: "(post_id q, q) \<in> set (mergeBuckets b)"
    and p: "p = scorePost nowMs styleTags (fst (feedWeights uid b)) (snd (feedWeights uid b)) q"
    by (rule rankPosts_mem)
  have boost: "sourceBoost q =
      (if post_id q \<in> post_id ` set (mine b) then 120 else 0)
    + (if post_id q \<in> post_id ` set (concat (following b)) then 45 else 0)
    + (if post_id q \<in> post_id ` set (campus b) then 12 else 0)
    + (if post_id q \<in> post_id ` set (global b) then 6 else 0)"
    unfolding sourceBoost_def
    using mergeBuckets_entry(2-5)[OF q] by simp
  have "feedScore p = Some (sourceBoost q + recencyScore nowMs q + engagementScore q
                + of_int (styleScore styleTags q)
                + of_int (interactionScore (fst (feedWeights uid b)) q)
                + of_int (authorAffinity (snd (feedWeights uid b)) q))"
    by (simp add: p scorePost_def)
  then show ?thesis
    unfolding boost by (simp add: p scorePost_fields)
qed

lemma rankPosts_window:
  assumes "p \<in> set (rankPosts nowMs styleTags uid b)"
  shows "toMillis (created_at p) > 0 \<and> nowMs - toMillis (created_at p) \<le> feedWindowMs"
    and "\<exists>r \<in> set (allRows b). post_id r = post_id p \<and> created_at r = created_at p"
proof -
  from assms obtain q where q: "(post_id q, q) \<in> set (mergeBuckets b)" and w: "inWindow nowMs q"
    and p: "p = scorePost nowMs styleTags (fst (feedWeights uid b)) (snd (feedWeights uid b)) q"
    by (rule rankPosts_mem)
  show "toMillis (created_at p) > 0 \<and> nowMs - toMillis (created_at p) \<le> feedWindowMs"
    using w by (simp add: p scorePost_fields inWindow_def Let_def)
  show "\<exists>r \<in> set (allRows b). post_id r = post_id p \<and> created_at r = created_at p"
    using mergeBuckets_entry(6)[OF q] by (simp add: p scorePost_fields)
qed

text \<open>
  Claim C4. The score of every ranked post is the sum of the boost constants of all the
  buckets that hold a row with its identifier (own 120, following 45, campus 12,
  global 6) plus its recency, engagement, style, interaction and author components. A
  post held by the own and the campus bucket only, with recency component 20, no
  engagement and no affinity components, scores 152.
\<close>

theorem feedScore_sums_source_boosts:
  "\<forall>p \<in> set (rankPosts nowMs styleTags uid b).
     feedScore p =
       Some ((if post_id p \<in> post_id ` set (mine b) then 120 else 0)
           + (if post_id p \<in> post_id ` set (concat (following b)) then 45 else 0)
           + (if post_id p \<in> post_id ` set (campus b) then 12 else 0)
           + (if post_id p \<in> post_id ` set (global b) then 6 else 0)
           + recencyScore nowMs p + engagementScore p + of_int (styleScore styleTags p)
           + of_int (interactionScore (fst (feedWeights uid b)) p)
           + of_int (authorAffinity (snd (feedWeights uid b)) p))
     \<and> (post_id p \<in> post_id ` set (mine b) \<and> post_id p \<in> post_id ` set (campus b)
        \<and> post_id p \<notin> post_id ` set (concat (following b)) \<and> post_id p \<notin> post_id ` set (global b)
        \<and> recencyScore nowMs p = 20 \<and> engagement_count p = 0 \<and> styleScore styleTags p = 0
        \<and> interactionScore (fst (feedWeights uid b)) p = 0
        \<and> authorAffinity (snd (feedWeights uid b)) p = 0
        \<longrightarrow> feedScore p = Some 152)"
proof
  fix p assume p: "p \<in> set (rankPosts nowMs styleTags uid b)"
  note s = rankPosts_score[OF p]
  have "feedScore p = Some 152"
    if "post_id p \<in> post_id ` set (mine b)" "post_id p \<in> post_id ` set (campus b)"
       "post_id p \<notin> post_id ` set (concat (following b))" "post_id p \<notin> post_id ` set (global b)"
       "recencyScore nowMs p = 20" "engagement_count p = 0" "styleScore styleTags p = 0"
       "interactionScore (fst (feedWeights uid b)) p = 0"
       "authorAffinity (snd (feedWeights uid b)) p = 0"
    using s that by (simp add: engagementScore_def)
  with s show "feedScore p =
       Some ((if post_id p \<in> post_id ` set (mine b) then 120 else 0)
           + (if post_id p \<in> post_id ` set (concat (following b)) then 45 else 0)
           + (if post_id p \<in> post_id ` set (campus b) then 12 else 0)
           + (if post_id p \<in> post_id ` set (global b) then 6 else 0)
           + recencyScore nowMs p + engagementScore p + of_int (styleScore styleTags p)
           + of_int (interactionScore (fst (feedWeights uid b)) p)
           + of_int (authorAffinity (snd (feedWeights uid b)) p))
     \<and> (post_id p \<in> post_id ` set (mine b) \<and> post_id p \<in> post_id ` set (campus b)
        \<and> post_id p \<notin> post_id ` set (concat (following b)) \<and> post_id p \<notin> post_id ` set (global b)
        \<and> recencyScore nowMs p = 20 \<and> engagement_count p = 0 \<and> styleScore styleTags p = 0
        \<and> interactionScore (fst (feedWeights uid b)) p = 0
        \<and> authorAffinity (snd (feedWeights uid b)) p = 0
        \<longrightarrow> feedScore p = Some 152)"
    by blast
qed

text \<open>
  The scenario of the specification: post \<open>p\<close>, 19 hours old, in the own and in the
  campus bucket.
\<close>

lemma boost_scenario_facts:
  "map post_id (rankPosts 100000000 [] ''u1'' boost_buckets) = [''p'']
   \<and> post_id (hd (rankPosts 100000000 [] ''u1'' boost_buckets)) \<in> post_id ` set (mine boost_buckets)
   \<and> post_id (hd (rankPosts 100000000 [] ''u1'' boost_buckets)) \<in> post_id ` set (campus boost_buckets)
   \<and> post_id (hd (rankPosts 100000000 [] ''u1'' boost_buckets))
        \<notin> post_id ` set (concat (following boost_buckets))
   \<and> post_id (hd (rankPosts 100000000 [] ''u1'' boost_buckets)) \<notin> post_id ` set (global boost_buckets)
   \<and> recencyScore 100000000 (hd (rankPosts 100000000 [] ''u1'' boost_buckets)) = 20
   \<and> engagement_count (hd (rankPosts 100000000 [] ''u1'' boost_buckets)) = 0
   \<and> styleScore [] (hd (rankPosts 100000000 [] ''u1'' boost_buckets)) = 0
   \<and> interactionScore (fst (feedWeights ''u1'' boost_buckets))
        (hd (rankPosts 100000000 [] ''u1'' boost_buckets)) = 0
   \<and> authorAffinity (snd (feedWeights ''u1'' boost_buckets))
        (hd (rankPosts 100000000 [] ''u1'' boost_buckets)) = 0"
  by code_simp

theorem feedScore_sums_source_boosts_witness:
  "map post_id (rankPosts 100000000 [] ''u1'' boost_buckets) = [''p'']
   \<and> post_id (hd (rankPosts 100000000 [] ''u1'' boost_buckets)) \<in> post_id ` set (mine boost_buckets)
   \<and> post_id (hd (rankPosts 100000000 [] ''u1'' boost_buckets)) \<in> post_id ` set (campus boost_buckets)
   \<and> recencyScore 100000000 (hd (rankPosts 100000000 [] ''u1'' boost_buckets)) = 20
   \<and> engagement_count (hd (rankPosts 100000000 [] ''u1'' boost_buckets)) = 0
   \<and> feedScore (hd (rankPosts 100000000 [] ''u1'' boost_buckets)) = Some 152"
proof -
  have "rankPosts 100000000 [] ''u1'' boost_buckets \<noteq> []"
    using boost_scenario_facts by auto
  then have m: "hd (rankPosts 100000000 [] ''u1'' boost_buckets)
                 \<in> set (rankPosts 100000000 [] ''u1'' boost_buckets)"
    by simp
  from feedScore_sums_source_boosts[of 100000000 "[]" "''u1''" boost_buckets, rule_format, OF m]
    boost_scenario_facts
  have "feedScore (hd (rankPosts 100000000 [] ''u1'' boost_buckets)) = Some 152"
    by blast
  with boost_scenario_facts show ?thesis by blast
qed

text \<open>
  Claim C5. Every ranked post has a valid creation time (positive milliseconds) that is
  at most the 24-hour feed window before the clock value. Hence an identifier all of
  whose bucket rows have a missing or invalid creation time, or one older than the
  window, does not appear in the ranked output, whatever its score components.
\<close>

theorem rankPosts_window_exclusion:
  "(\<forall>p \<in> set (rankPosts nowMs styleTags uid b).
      toMillis (created_at p) > 0 \<and> nowMs - toMillis (created_at p) \<le> feedWindowMs)
   \<and> ((\<forall>r \<in> set (allRows b). post_id r = i \<longrightarrow>
          toMillis (created_at r) \<le> 0 \<or> nowMs - toMillis (created_at r) > feedWindowMs)
       \<longrightarrow> i \<notin> post_id ` set (rankPosts nowMs styleTags uid b))"
proof (intro conjI impI ballI)
  fix p assume "p \<in> set (rankPosts nowMs styleTags uid b)"
  then show "toMillis (created_at p) > 0" and "nowMs - toMillis (created_at p) \<le> feedWindowMs"
    using rankPosts_window(1) by blast+
next
  assume stale: "\<forall>r \<in> set (allRows b). post_id r = i \<longrightarrow>
          toMillis (created_at r) \<le> 0 \<or> nowMs - toMillis (created_at r) > feedWindowMs"
  show "i \<notin> post_id ` set (rankPosts nowMs styleTags uid b)"
  proof
    assume "i \<in> post_id ` set (rankPosts nowMs styleTags uid b)"
    then obtain p where p: "p \<in> set (rankPosts nowMs styleTags uid b)" "post_id p = i" by auto
    from rankPosts_window(2)[OF p(1)] obtain r where
      r: "r \<in> set (allRows b)" "post_id r = i" "created_at r = created_at p"
      using p(2) by auto
    from rankPosts_window(1)[OF p(1)] r(3)
    have "toMillis (created_at r) > 0 \<and> nowMs - toMillis (created_at r) \<le> feedWindowMs" by simp
    with stale r(1,2) show False by fastforce
  qed
qed

lemma window_scenario_facts:
  "map post_id (rankPosts 100000000 [] ''u1'' window_buckets) = [''f'']
   \<and> map (\<lambda>r. (post_id r, toMillis (created_at r))) (allRows window_buckets)
       = [(''o'', 10000000), (''f'', 96400000), (''o'', 10000000), (''n'', 0)]
   \<and> 100000000 - 10000000 > feedWindowMs
   \<and> toMillis (created_at (hd (rankPosts 100000000 [] ''u1'' window_buckets))) = 96400000
   \<and> 100000000 - 96400000 \<le> feedWindowMs"
  by code_simp

theorem rankPosts_window_exclusion_witness:
  "map post_id (rankPosts 100000000 [] ''u1'' window_buckets) = [''f'']
   \<and> map (\<lambda>r. (post_id r, toMillis (created_at r))) (allRows window_buckets)
       = [(''o'', 10000000), (''f'', 96400000), (''o'', 10000000), (''n'', 0)]
   \<and> 100000000 - 10000000 > feedWindowMs
   \<and> ''o'' \<notin> post_id ` set (rankPosts 100000000 [] ''u1'' window_buckets)
   \<and> ''n'' \<notin> post_id ` set (rankPosts 100000000 [] ''u1'' window_buckets)
   \<and> toMillis (created_at (hd (rankPosts 100000000 [] ''u1'' window_buckets))) > 0
   \<and> 100000000 - toMillis (created_at (hd (rankPosts 100000000 [] ''u1'' window_buckets)))
        \<le> feedWindowMs"
proof -
  have rows: "map (\<lambda>r. (post_id r, toMillis (created_at r))) (allRows window_buckets)
       = [(''o'', 10000000), (''f'', 96400000), (''o'', 10000000), (''n'', 0)]"
    using window_scenario_facts by blast
  have late: "100000000 - 10000000 > feedWindowMs" using window_scenario_facts by blast
  have pair: "(post_id r, toMillis (created_at r))
       \<in> {(''o'', 10000000), (''f'', 96400000), (''n'', 0)}" if "r \<in> set (allRows window_buckets)" for r
  proof -
    from that have "(post_id r, toMillis (created_at r))
        \<in> set (map (\<lambda>r. (post_id r, toMillis (created_at r))) (allRows window_buckets))"
      by (simp only: set_map) (rule imageI)
    then show ?thesis unfolding rows by auto
  qed
  have so: "\<forall>r \<in> set (allRows window_buckets). post_id r = ''o'' \<longrightarrow>
          toMillis (created_at r) \<le> 0 \<or> 100000000 - toMillis (created_at r) > feedWindowMs"
    using pair late by fastforce
  have sn: "\<forall>r \<in> set (allRows window_buckets). post_id r = ''n'' \<longrightarrow>
          toMillis (created_at r) \<le> 0 \<or> 100000000 - toMillis (created_at r) > feedWindowMs"
    using pair by fastforce
  note o = rankPosts_window_exclusion[of 100000000 "[]" "''u1''" window_buckets "''o''"]
  note n = rankPosts_window_exclusion[of 100000000 "[]" "''u1''" window_buckets "''n''"]
  have ne: "rankPosts 100000000 [] ''u1'' window_buckets \<noteq> []"
    using window_scenario_facts by auto
  then have m: "hd (rankPosts 100000000 [] ''u1'' window_buckets)
                 \<in> set (rankPosts 100000000 [] ''u1'' window_buckets)" by simp
  from o m have h: "toMillis (created_at (hd (rankPosts 100000000 [] ''u1'' window_buckets))) > 0
     \<and> 100000000 - toMillis (created_at (hd (rankPosts 100000000 [] ''u1'' window_buckets)))
        \<le> feedWindowMs" by blast
  from o so have xo: "''o'' \<notin> post_id ` set (rankPosts 100000000 [] ''u1'' window_buckets)" by blast
  from n sn have xn: "''n'' \<notin> post_id ` set (rankPosts 100000000 [] ''u1'' window_buckets)" by blast
  from window_scenario_facts late xo xn h show ?thesis by blast
qed

lemma firstOccurrences_snoc:
  "firstOccurrences (xs @ [x]) = (if x \<in> set xs then firstOccurrences xs else firstOccurrences xs @ [x])"
  by (simp add: firstOccurrences_def)

lemma set_firstOccurrences: "set (firstOccurrences xs) = set xs"
  by (simp add: firstOccurrences_def)

lemma addToMerged_keys:
  "map fst (addToMerged m row src) =
     (if post_id row \<in> set (map fst m) then map fst m else map fst m @ [post_id row])"
  by (simp add: addToMerged_def Let_def update_keys)

lemma merged_keys:
  "map fst (foldl (\<lambda>m (r, s). addToMerged m r s) [] rs) = firstOccurrences (map (\<lambda>x. post_id (fst x)) rs)"
proof (induction rs rule: rev_induct)
  case Nil
  then show ?case by (simp add: firstOccurrences_def)
next
  case (snoc x rs)
  obtain row src where x: "x = (row, src)" by (cases x)
  have "set (map fst (foldl (\<lambda>m (r, s). addToMerged m r s) [] rs)) = set (map (\<lambda>x. post_id (fst x)) rs)"
    unfolding snoc by (rule set_firstOccurrences)
  then show ?case
    using snoc by (simp add: x addToMerged_keys firstOccurrences_snoc)
qed

lemma mergeBuckets_keys:
  "map fst (mergeBuckets b) = firstOccurrences (map post_id (allRows b))"
proof -
  have "map (\<lambda>x. post_id (fst x)) (tagged b) = map post_id (allRows b)"
    by (simp add: tagged_def allRows_def comp_def)
  then show ?thesis using merged_keys[of "tagged b"] by (simp add: mergeBuckets_tagged)
qed

lemma map_filter_distinct:
  "distinct (map f xs) \<Longrightarrow>
   map f (filter P xs) = filter (\<lambda>i. i \<in> f ` {x \<in> set xs. P x}) (map f xs)"
proof (induction xs)
  case Nil
  then show ?case by simp
next
  case (Cons x xs)
  have "f x \<notin> f ` set xs" using Cons.prems by simp
  then have notin: "\<forall>y \<in> set xs. f y \<noteq> f x" by (metis image_eqI)
  have rest: "filter (\<lambda>i. i \<in> f ` {y \<in> set (x # xs). P y}) (map f xs)
            = filter (\<lambda>i. i \<in> f ` {y \<in> set xs. P y}) (map f xs)"
  proof (rule filter_cong[OF refl])
    fix i assume "i \<in> set (map f xs)"
    then have "i \<noteq> f x" using notin by auto
    then show "(i \<in> f ` {y \<in> set (x # xs). P y}) = (i \<in> f ` {y \<in> set xs. P y})" by auto
  qed
  have "map f (filter P xs) = filter (\<lambda>i. i \<in> f ` {y \<in> set xs. P y}) (map f xs)"
    using Cons by simp
  moreover have "P x \<Longrightarrow> f x \<in> f ` {y \<in> set (x # xs). P y}" by auto
  moreover have "\<not> P x \<Longrightarrow> f x \<notin> f ` {y \<in> set (x # xs). P y}" using notin by auto
  ultimately show ?case using rest by (cases "P x") simp_all
qed

lemma merged_values_ids: "map post_id (map snd (mergeBuckets b)) = map fst (mergeBuckets b)"
  using mergeBuckets_entry(1)[of _ _ b] by (auto intro!: map_cong simp: comp_def)

text \<open>
  Claim C6, as the code has it. The ranked list is in descending order of score, and
  the posts of one score keep the order in which their identifiers first occur in the
  buckets read in the order own, campus, following, global. The comparator looks at
  the score alone: neither the creation time nor the identifier breaks a tie.
\<close>

theorem rankPosts_sorted_stable:
  "sorted_wrt (\<lambda>p q. score_of p \<ge> score_of q) (rankPosts nowMs styleTags uid b)
   \<and> map post_id (filter (\<lambda>p. score_of p = s) (rankPosts nowMs styleTags uid b))
       = filter (\<lambda>i. i \<in> post_id ` {p \<in> set (rankPosts nowMs styleTags uid b). score_of p = s})
           (firstOccurrences (map post_id (allRows b)))"
proof
  let ?g = "scorePost nowMs styleTags (fst (feedWeights uid b)) (snd (feedWeights uid b))"
  let ?vals = "map snd (mergeBuckets b)"
  let ?scored = "map ?g (filter (inWindow nowMs) ?vals)"
  have r: "rankPosts nowMs styleTags uid b = sort_key (\<lambda>p. - score_of p) ?scored"
    by (simp add: rankPosts_sorted_scored sortByFeedScore_def)
  have "sorted (map (\<lambda>p. - score_of p) (sort_key (\<lambda>p. - score_of p) ?scored))"
    by (rule sorted_sort_key)
  then have "sorted_wrt (\<lambda>p q. - score_of p \<le> - score_of q) (sort_key (\<lambda>p. - score_of p) ?scored)"
    by (simp add: sorted_map)
  then show "sorted_wrt (\<lambda>p q. score_of p \<ge> score_of q) (rankPosts nowMs styleTags uid b)"
    by (simp add: r)
  have stable: "filter (\<lambda>p. score_of p = s) (rankPosts nowMs styleTags uid b)
              = filter (\<lambda>p. score_of p = s) ?scored"
    using sort_key_stable[of "\<lambda>p. - score_of p" "- s" ?scored] by (simp add: r)
  have ids: "map post_id (filter (\<lambda>p. score_of p = s) ?scored)
           = map post_id (filter (\<lambda>v. inWindow nowMs v \<and> score_of (?g v) = s) ?vals)"
    by (simp add: filter_map comp_def scorePost_fields(1))
  have d: "distinct (map post_id ?vals)"
    using mergeBuckets_distinct[of b] by (simp only: merged_values_ids)
  have sets: "post_id ` {v \<in> set ?vals. inWindow nowMs v \<and> score_of (?g v) = s}
            = post_id ` {p \<in> set (rankPosts nowMs styleTags uid b). score_of p = s}"
  proof -
    have "{p \<in> set (rankPosts nowMs styleTags uid b). score_of p = s}
          = ?g ` {v \<in> set ?vals. inWindow nowMs v \<and> score_of (?g v) = s}"
      by (auto simp: r)
    then have "post_id ` {p \<in> set (rankPosts nowMs styleTags uid b). score_of p = s}
          = (\<lambda>v. post_id (?g v)) ` {v \<in> set ?vals. inWindow nowMs v \<and> score_of (?g v) = s}"
      by (simp only: image_image)
    then show ?thesis by (simp only: scorePost_fields(1))
  qed
  have "map post_id (filter (\<lambda>v. inWindow nowMs v \<and> score_of (?g v) = s) ?vals)
        = filter (\<lambda>i. i \<in> post_id ` {v \<in> set ?vals. inWindow nowMs v \<and> score_of (?g v) = s})
            (map post_id ?vals)"
    by (rule map_filter_distinct[OF d])
  then show "map post_id (filter (\<lambda>p. score_of p = s) (rankPosts nowMs styleTags uid b))
       = filter (\<lambda>i. i \<in> post_id ` {p \<in> set (rankPosts nowMs styleTags uid b). score_of p = s})
           (firstOccurrences (map post_id (allRows b)))"
    unfolding stable ids sets by (simp only: merged_values_ids mergeBuckets_keys)
qed

text \<open>
  Post \<open>a\<close> is in the campus and the global bucket and three hours older than post \<open>b\<close>,
  which only the global bucket holds. Both score 102; \<open>a\<close>, merged first, is ranked
  before the newer \<open>b\<close>.
\<close>

theorem rankPosts_tie_order_counterexample:
  "map post_id (rankPosts 100000000 [] ''u1'' tie_buckets) = [''a'', ''b'']
   \<and> map feedScore (rankPosts 100000000 [] ''u1'' tie_buckets) = [Some 102, Some 102]
   \<and> map (\<lambda>p. toMillis (created_at p)) (rankPosts 100000000 [] ''u1'' tie_buckets)
       = [89200000, 100000000]
   \<and> map post_id (global tie_buckets) = [''b'', ''a'']"
  by code_simp

lemma tie_scenario_facts:
  "map post_id (rankPosts 100000000 [] ''u1'' tie_buckets) = [''a'', ''b'']
   \<and> map score_of (rankPosts 100000000 [] ''u1'' tie_buckets) = [102, 102]
   \<and> firstOccurrences (map post_id (allRows tie_buckets)) = [''a'', ''b'']"
  by code_simp

theorem rankPosts_sorted_stable_witness:
  "map score_of (rankPosts 100000000 [] ''u1'' tie_buckets) = [102, 102]
   \<and> firstOccurrences (map post_id (allRows tie_buckets)) = [''a'', ''b'']
   \<and> sorted_wrt (\<lambda>p q. score_of p \<ge> score_of q) (rankPosts 100000000 [] ''u1'' tie_buckets)
   \<and> map post_id (filter (\<lambda>p. score_of p = 102) (rankPosts 100000000 [] ''u1'' tie_buckets))
       = filter (\<lambda>i. i \<in> post_id ` {p \<in> set (rankPosts 100000000 [] ''u1'' tie_buckets). score_of p = 102})
           (firstOccurrences (map post_id (allRows tie_buckets)))"
  using rankPosts_sorted_stable[of 100000000 "[]" "''u1''" tie_buckets 102] tie_scenario_facts
  by blast

end
